theory Spec2Isabelle
  imports Main "HOL-Library.Word"
begin

section \<open>Data model of the publisher (v2/pkg/tcr/publisher.go)\<close>

text \<open>
  A Go \<^verbatim>\<open>error\<close> is represented by its message; \<^verbatim>\<open>nil\<close> is \<open>None\<close> of
  \<open>error option\<close>. \<^verbatim>\<open>fmt.Errorf\<close> with \<^verbatim>\<open>%s\<close> and \<^verbatim>\<open>%w\<close> is string concatenation.
  A \<^verbatim>\<open>time.Duration\<close> is a number of nanoseconds; the publisher only compares it with 0
  and hands it to \<^verbatim>\<open>time.After\<close> and \<^verbatim>\<open>time.Sleep\<close>.
  A \<^verbatim>\<open>*ChannelHost\<close> is the identity of the channel host it points to; the \<^verbatim>\<open>nil\<close>
  pointer is \<open>None\<close> of \<open>chan_host option\<close>.
\<close>

type_synonym error = string
type_synonym Duration = int
type_synonym chan_host = nat

text \<open>
  Modelled from the spec: the declarations of \<^verbatim>\<open>Letter\<close>, \<^verbatim>\<open>Envelope\<close> and
  \<^verbatim>\<open>PublishReceipt\<close> are not in the sources; the fields are those of section 3 of the
  specification, which are also the fields the publisher reads and writes. \<open>LetterID\<close> holds
  the identifier in the form \<^verbatim>\<open>letter.LetterID.String()\<close> prints; \<open>ReceiptLetterID\<close> is the
  \<^verbatim>\<open>LetterID\<close> field of the receipt.
\<close>

record Envelope =
  Exchange :: string
  RoutingKey :: string
  Mandatory :: bool
  Immediate :: bool
  ContentType :: string
  Headers :: "(string \<times> string) list"
  DeliveryMode :: "8 word"
  Priority :: "8 word"
  CorrelationID :: string
  Type :: string

record Letter =
  LetterID :: string
  Envelope :: Envelope
  Body :: "8 word list"

record PublishReceipt =
  ReceiptLetterID :: string
  Success :: bool
  Error :: "error option"
  FailedLetter :: "Letter option"

text \<open>The message handed to \<^verbatim>\<open>Channel.Publish\<close> (\<^verbatim>\<open>amqp.Publishing\<close>), apart from its
  \<^verbatim>\<open>Timestamp\<close>, which is the wall clock at the call.\<close>

record Publishing =
  P_ContentType :: string
  P_Body :: "8 word list"
  P_Headers :: "(string \<times> string) list"
  P_DeliveryMode :: "8 word"
  P_Priority :: "8 word"
  P_MessageId :: string
  P_CorrelationId :: string
  P_Type :: string
  P_AppId :: string

section \<open>Effects and runs\<close>

text \<open>
  The publisher's methods are sequences of calls into the connection pool, the broker channel,
  the clock and the receipt stream. A run of a method is the list of these effects in program
  order, and what became of the call. The collaborators are outside the publisher, so their
  answers are inputs of the model:
  \<^item> the results of the successive \<^verbatim>\<open>GetChannelFromPool\<close> calls,
  \<^item> the results of the successive \<^verbatim>\<open>Channel.Publish\<close> calls,
  \<^item> the case each successive execution of the \<^verbatim>\<open>select\<close> statement takes.
  Each of the three is a finite list. When a call needs an answer and its list is used up, the
  run is \<open>Pending\<close>: the method has not returned within the described part of the world.
\<close>

datatype effect =
    Call_GetChannelFromPool
  | Got_Channel "error + chan_host"
  | FlushConfirms chan_host
  | TimeAfter Duration
  | Channel_Publish chan_host string string bool bool Publishing
  | Publish_Returned "error option"
  | Recv_timeoutAfter
  | Recv_Confirmation chan_host bool
  | Sleep Duration
  | Emit_Receipt PublishReceipt
  | ReturnChannel "chan_host option" bool

datatype 'a outcome = Returns 'a | Pending

type_synonym 'a run = "effect list \<times> 'a outcome"

datatype select_case = Timeout_Elapsed | Confirmation bool | Default

definition after :: "effect list \<Rightarrow> 'a run \<Rightarrow> 'a run" where
  "after es r = (es @ fst r, snd r)"

definition Millisecond :: Duration where
  "Millisecond = 1000000"

text \<open>The \<^verbatim>\<open>Channel.Publish\<close> call all publish methods make: every argument is a field of
  the letter, apart from the application name of the pool's configuration.\<close>

definition publish_call :: "string \<Rightarrow> chan_host \<Rightarrow> Letter \<Rightarrow> effect" where
  "publish_call appName ch letter =
     Channel_Publish ch
       (Exchange (Envelope letter))
       (RoutingKey (Envelope letter))
       (Mandatory (Envelope letter))
       (Immediate (Envelope letter))
       \<lparr> P_ContentType = ContentType (Envelope letter),
         P_Body = Body letter,
         P_Headers = Headers (Envelope letter),
         P_DeliveryMode = DeliveryMode (Envelope letter),
         P_Priority = Priority (Envelope letter),
         P_MessageId = LetterID letter,
         P_CorrelationId = CorrelationID (Envelope letter),
         P_Type = Type (Envelope letter),
         P_AppId = appName \<rparr>"

section \<open>publishReceipt\<close>

text \<open>
  \<^verbatim>\<open>publishReceipt(l, e)\<close> adds one to the wait group and starts a goroutine that builds the
  receipt and sends it to the receipt stream. \<open>new_receipt\<close> is the receipt the goroutine
  builds: the struct literal sets \<^verbatim>\<open>LetterID\<close> and \<^verbatim>\<open>Error\<close> and leaves the other fields
  at their zero values; then \<^verbatim>\<open>Success\<close> is set when the error is nil, and
  \<^verbatim>\<open>FailedLetter\<close> otherwise.
\<close>

definition new_receipt :: "Letter \<Rightarrow> error option \<Rightarrow> PublishReceipt" where
  "new_receipt letter err =
     (let publishReceipt = \<lparr> ReceiptLetterID = LetterID letter, Success = False,
                               Error = err, FailedLetter = None \<rparr>
      in if err = None then publishReceipt\<lparr> Success := True \<rparr>
         else publishReceipt\<lparr> FailedLetter := Some letter \<rparr>)"

definition publishReceipt :: "Letter \<Rightarrow> error option \<Rightarrow> effect" where
  "publishReceipt l e = Emit_Receipt (new_receipt l e)"

section \<open>The publisher\<close>

text \<open>
  A Go channel: the values buffered in it (oldest first), its capacity, and whether it has been
  closed. A receive can proceed when a value is buffered or the channel is closed; a send can
  proceed when there is room, and also when the channel is closed (the send then panics).
\<close>

record 'a channel =
  buffer :: "'a list"
  capacity :: nat
  closed :: bool

definition make_chan :: "nat \<Rightarrow> 'a channel" where
  "make_chan n = \<lparr> buffer = [], capacity = n, closed = False \<rparr>"

definition can_recv :: "'a channel \<Rightarrow> bool" where
  "can_recv c = (buffer c \<noteq> [] \<or> closed c)"

definition can_send :: "'a channel \<Rightarrow> bool" where
  "can_send c = (closed c \<or> length (buffer c) < capacity c)"

text \<open>
  The fields of \<^verbatim>\<open>Publisher\<close> the modelled methods use. \<open>ApplicationName\<close> and
  \<open>MaxCacheChannelCount\<close> are \<^verbatim>\<open>pub.ConnectionPool.Config.ApplicationName\<close> and
  \<^verbatim>\<open>pub.ConnectionPool.Config.MaxCacheChannelCount\<close>; the declaration of the pool's
  configuration is not in the sources, the count is an unsigned number of channels.
  \<open>wg\<close> is the counter of the wait group.
\<close>

record Publisher =
  ApplicationName :: string
  MaxCacheChannelCount :: nat
  publishReceipts :: "PublishReceipt channel"
  autoStarted :: bool
  letters :: "Letter channel"
  shutdownSignal :: "unit channel"
  wg :: int
  publishTimeOutDuration :: Duration

definition NewPublisher :: "string \<Rightarrow> nat \<Rightarrow> Duration \<Rightarrow> Publisher" where
  "NewPublisher appName maxChannels timeOut =
     \<lparr> ApplicationName = appName,
       MaxCacheChannelCount = maxChannels,
       publishReceipts = make_chan 1000,
       autoStarted = False,
       letters = make_chan 1000,
       shutdownSignal = make_chan 0,
       wg = 0,
       publishTimeOutDuration = timeOut \<rparr>"

section \<open>Publish and PublishWithError\<close>

text \<open>
  Modelled from the spec: \<^verbatim>\<open>GetChannelFromPool() -> ChannelHost | Error\<close>; the pool is not in
  the sources. A failed acquisition is \<open>Inl\<close> of the error and hands out no channel host, so
  the \<^verbatim>\<open>chanHost\<close> of the failure branch is the nil pointer.
\<close>

fun Publish :: "('a Publisher_scheme) \<Rightarrow> Letter \<Rightarrow> bool \<Rightarrow>
      (error + chan_host) list \<Rightarrow> error option list \<Rightarrow> unit run" where
  "Publish pub letter skipReceipt [] subs = ([Call_GetChannelFromPool], Pending)"
| "Publish pub letter skipReceipt (Inl err # acqs) subs =
     ([Call_GetChannelFromPool, Got_Channel (Inl err), ReturnChannel None True], Returns ())"
| "Publish pub letter skipReceipt (Inr chanHost # acqs) [] =
     ([Call_GetChannelFromPool, Got_Channel (Inr chanHost),
       publish_call (ApplicationName pub) chanHost letter], Pending)"
| "Publish pub letter skipReceipt (Inr chanHost # acqs) (err # subs) =
     ([Call_GetChannelFromPool, Got_Channel (Inr chanHost),
       publish_call (ApplicationName pub) chanHost letter, Publish_Returned err]
      @ (if \<not> skipReceipt then [publishReceipt letter err] else [])
      @ [ReturnChannel (Some chanHost) (err \<noteq> None)], Returns ())"

fun PublishWithError :: "('a Publisher_scheme) \<Rightarrow> Letter \<Rightarrow> bool \<Rightarrow>
      (error + chan_host) list \<Rightarrow> error option list \<Rightarrow> (error option) run" where
  "PublishWithError pub letter skipReceipt [] subs = ([Call_GetChannelFromPool], Pending)"
| "PublishWithError pub letter skipReceipt (Inl err # acqs) subs =
     ([Call_GetChannelFromPool, Got_Channel (Inl err)], Returns (Some err))"
| "PublishWithError pub letter skipReceipt (Inr chanHost # acqs) [] =
     ([Call_GetChannelFromPool, Got_Channel (Inr chanHost),
       publish_call (ApplicationName pub) chanHost letter], Pending)"
| "PublishWithError pub letter skipReceipt (Inr chanHost # acqs) (err # subs) =
     ([Call_GetChannelFromPool, Got_Channel (Inr chanHost),
       publish_call (ApplicationName pub) chanHost letter, Publish_Returned err]
      @ (if \<not> skipReceipt then [publishReceipt letter err] else [])
      @ [ReturnChannel (Some chanHost) (err \<noteq> None)], Returns err)"

section \<open>PublishWithConfirmation\<close>

definition acquire_failed_error :: "Letter \<Rightarrow> error \<Rightarrow> error" where
  "acquire_failed_error letter err =
     ''publish of LetterID: '' @ LetterID letter @ '' failed: '' @ err"

definition confirmation_timeout_error :: "Letter \<Rightarrow> error" where
  "confirmation_timeout_error letter =
     ''publish confirmation for LetterID: '' @ LetterID letter
       @ '' wasn't received in a timely manner - recommend retry/requeue''"

text \<open>
  The three places control can be at in \<^verbatim>\<open>PublishWithConfirmation\<close>: the top of the outer
  \<^verbatim>\<open>for\<close> loop, the label \<^verbatim>\<open>Publish\<close> (holding \<open>chanHost\<close>), and the \<^verbatim>\<open>select\<close> of
  the inner \<^verbatim>\<open>for\<close> loop. \<^verbatim>\<open>continue\<close> goes to the first, \<^verbatim>\<open>goto Publish\<close> to the
  second, the \<^verbatim>\<open>default\<close> case to the third. \<open>timeout\<close> is the local variable after the
  assignment of the first statement.
\<close>

function (sequential)
    pwc_for :: "string \<Rightarrow> Letter \<Rightarrow> Duration \<Rightarrow>
      (error + chan_host) list \<Rightarrow> error option list \<Rightarrow> select_case list \<Rightarrow> unit run"
and pwc_Publish :: "string \<Rightarrow> Letter \<Rightarrow> Duration \<Rightarrow> chan_host \<Rightarrow>
      (error + chan_host) list \<Rightarrow> error option list \<Rightarrow> select_case list \<Rightarrow> unit run"
and pwc_select :: "string \<Rightarrow> Letter \<Rightarrow> Duration \<Rightarrow> chan_host \<Rightarrow>
      (error + chan_host) list \<Rightarrow> error option list \<Rightarrow> select_case list \<Rightarrow> unit run"
where
  "pwc_for app letter timeout [] subs sels = ([Call_GetChannelFromPool], Pending)"
| "pwc_for app letter timeout (Inl err # acqs) subs sels =
     ([Call_GetChannelFromPool, Got_Channel (Inl err),
       publishReceipt letter (Some (acquire_failed_error letter err))], Returns ())"
| "pwc_for app letter timeout (Inr chanHost # acqs) subs sels =
     after [Call_GetChannelFromPool, Got_Channel (Inr chanHost), FlushConfirms chanHost]
       (pwc_Publish app letter timeout chanHost acqs subs sels)"
| "pwc_Publish app letter timeout chanHost acqs [] sels =
     ([TimeAfter timeout, publish_call app chanHost letter], Pending)"
| "pwc_Publish app letter timeout chanHost acqs (Some err # subs) sels =
     after [TimeAfter timeout, publish_call app chanHost letter, Publish_Returned (Some err),
            ReturnChannel (Some chanHost) True]
       (pwc_for app letter timeout acqs subs sels)"
| "pwc_Publish app letter timeout chanHost acqs (None # subs) sels =
     after [TimeAfter timeout, publish_call app chanHost letter, Publish_Returned None]
       (pwc_select app letter timeout chanHost acqs subs sels)"
| "pwc_select app letter timeout chanHost acqs subs [] = ([], Pending)"
| "pwc_select app letter timeout chanHost acqs subs (Timeout_Elapsed # sels) =
     ([Recv_timeoutAfter,
       publishReceipt letter (Some (confirmation_timeout_error letter)),
       ReturnChannel (Some chanHost) False], Returns ())"
| "pwc_select app letter timeout chanHost acqs subs (Confirmation ack # sels) =
     (if \<not> ack
      then after [Recv_Confirmation chanHost ack]
             (pwc_Publish app letter timeout chanHost acqs subs sels)
      else ([Recv_Confirmation chanHost ack, publishReceipt letter None,
             ReturnChannel (Some chanHost) False], Returns ()))"
| "pwc_select app letter timeout chanHost acqs subs (Default # sels) =
     after [Sleep (1 * Millisecond)]
       (pwc_select app letter timeout chanHost acqs subs sels)"
  by pat_completeness auto
termination
  by (relation "measure (\<lambda>x. case x of
        Inl (app, l, t, acqs, subs, sels) \<Rightarrow>
          3 * (length acqs + length subs + length sels) + 2
      | Inr (Inl (app, l, t, ch, acqs, subs, sels)) \<Rightarrow>
          3 * (length acqs + length subs + length sels) + 1
      | Inr (Inr (app, l, t, ch, acqs, subs, sels)) \<Rightarrow>
          3 * (length acqs + length subs + length sels))") auto

definition PublishWithConfirmation :: "('a Publisher_scheme) \<Rightarrow> Letter \<Rightarrow> Duration \<Rightarrow>
      (error + chan_host) list \<Rightarrow> error option list \<Rightarrow> select_case list \<Rightarrow> unit run" where
  "PublishWithConfirmation pub letter timeout acqs subs sels =
     pwc_for (ApplicationName pub) letter
       (if timeout = 0 then publishTimeOutDuration pub else timeout) acqs subs sels"

section \<open>PublishWithConfirmationError\<close>

text \<open>The same control flow; no receipt is emitted, the error is the returned value.\<close>

function (sequential)
    pwce_for :: "string \<Rightarrow> Letter \<Rightarrow> Duration \<Rightarrow>
      (error + chan_host) list \<Rightarrow> error option list \<Rightarrow> select_case list \<Rightarrow>
      (error option) run"
and pwce_Publish :: "string \<Rightarrow> Letter \<Rightarrow> Duration \<Rightarrow> chan_host \<Rightarrow>
      (error + chan_host) list \<Rightarrow> error option list \<Rightarrow> select_case list \<Rightarrow>
      (error option) run"
and pwce_select :: "string \<Rightarrow> Letter \<Rightarrow> Duration \<Rightarrow> chan_host \<Rightarrow>
      (error + chan_host) list \<Rightarrow> error option list \<Rightarrow> select_case list \<Rightarrow>
      (error option) run"
where
  "pwce_for app letter timeout [] subs sels = ([Call_GetChannelFromPool], Pending)"
| "pwce_for app letter timeout (Inl err # acqs) subs sels =
     ([Call_GetChannelFromPool, Got_Channel (Inl err)],
      Returns (Some (acquire_failed_error letter err)))"
| "pwce_for app letter timeout (Inr chanHost # acqs) subs sels =
     after [Call_GetChannelFromPool, Got_Channel (Inr chanHost), FlushConfirms chanHost]
       (pwce_Publish app letter timeout chanHost acqs subs sels)"
| "pwce_Publish app letter timeout chanHost acqs [] sels =
     ([TimeAfter timeout, publish_call app chanHost letter], Pending)"
| "pwce_Publish app letter timeout chanHost acqs (Some err # subs) sels =
     after [TimeAfter timeout, publish_call app chanHost letter, Publish_Returned (Some err),
            ReturnChannel (Some chanHost) True]
       (pwce_for app letter timeout acqs subs sels)"
| "pwce_Publish app letter timeout chanHost acqs (None # subs) sels =
     after [TimeAfter timeout, publish_call app chanHost letter, Publish_Returned None]
       (pwce_select app letter timeout chanHost acqs subs sels)"
| "pwce_select app letter timeout chanHost acqs subs [] = ([], Pending)"
| "pwce_select app letter timeout chanHost acqs subs (Timeout_Elapsed # sels) =
     ([Recv_timeoutAfter, ReturnChannel (Some chanHost) False],
      Returns (Some (confirmation_timeout_error letter)))"
| "pwce_select app letter timeout chanHost acqs subs (Confirmation ack # sels) =
     (if \<not> ack
      then after [Recv_Confirmation chanHost ack]
             (pwce_Publish app letter timeout chanHost acqs subs sels)
      else ([Recv_Confirmation chanHost ack, ReturnChannel (Some chanHost) False],
            Returns None))"
| "pwce_select app letter timeout chanHost acqs subs (Default # sels) =
     after [Sleep (1 * Millisecond)]
       (pwce_select app letter timeout chanHost acqs subs sels)"
  by pat_completeness auto
termination
  by (relation "measure (\<lambda>x. case x of
        Inl (app, l, t, acqs, subs, sels) \<Rightarrow>
          3 * (length acqs + length subs + length sels) + 2
      | Inr (Inl (app, l, t, ch, acqs, subs, sels)) \<Rightarrow>
          3 * (length acqs + length subs + length sels) + 1
      | Inr (Inr (app, l, t, ch, acqs, subs, sels)) \<Rightarrow>
          3 * (length acqs + length subs + length sels))") auto

definition PublishWithConfirmationError :: "('a Publisher_scheme) \<Rightarrow> Letter \<Rightarrow> Duration \<Rightarrow>
      (error + chan_host) list \<Rightarrow> error option list \<Rightarrow> select_case list \<Rightarrow>
      (error option) run" where
  "PublishWithConfirmationError pub letter timeout acqs subs sels =
     pwce_for (ApplicationName pub) letter
       (if timeout = 0 then publishTimeOutDuration pub else timeout) acqs subs sels"

section \<open>Observations on runs\<close>

text \<open>
  What a run shows: the receipts it emitted, the submissions it made, and the channel host the
  method holds after a list of effects (acquired and not yet returned).
\<close>

fun receipts :: "effect list \<Rightarrow> PublishReceipt list" where
  "receipts [] = []"
| "receipts (Emit_Receipt r # es) = r # receipts es"
| "receipts (e # es) = receipts es"

fun submissions :: "effect list \<Rightarrow> effect list" where
  "submissions [] = []"
| "submissions (Channel_Publish ch ex rk m i msg # es) =
     Channel_Publish ch ex rk m i msg # submissions es"
| "submissions (e # es) = submissions es"

fun holding :: "chan_host option \<Rightarrow> effect list \<Rightarrow> chan_host option" where
  "holding h [] = h"
| "holding h (Got_Channel (Inr ch) # es) = holding (Some ch) es"
| "holding h (ReturnChannel c erred # es) = holding None es"
| "holding h (e # es) = holding h es"

fun returned_channels :: "effect list \<Rightarrow> (chan_host option \<times> bool) list" where
  "returned_channels [] = []"
| "returned_channels (ReturnChannel c erred # es) = (c, erred) # returned_channels es"
| "returned_channels (e # es) = returned_channels es"

definition timeout_tail :: "Letter \<Rightarrow> chan_host \<Rightarrow> effect list" where
  "timeout_tail letter ch = [Recv_timeoutAfter,
       Emit_Receipt \<lparr> ReceiptLetterID = LetterID letter, Success = False,
         Error = Some (''publish confirmation for LetterID: '' @ LetterID letter
                  @ '' wasn't received in a timely manner - recommend retry/requeue''),
         FailedLetter = Some letter \<rparr>,
       ReturnChannel (Some ch) False]"

text \<open>
  \<open>each_suffix P tr\<close>: \<open>P\<close> holds of every suffix of \<open>tr\<close>, that is, at every
  position of the run, of what follows from there.
\<close>

fun each_suffix :: "('a list \<Rightarrow> bool) \<Rightarrow> 'a list \<Rightarrow> bool" where
  "each_suffix P [] = P []"
| "each_suffix P (x # xs) = (P (x # xs) \<and> each_suffix P xs)"

fun nack_republishes :: "string \<Rightarrow> Letter \<Rightarrow> Duration \<Rightarrow> effect list \<Rightarrow> bool" where
  "nack_republishes app l t (Recv_Confirmation ch False # rest) =
     (take 2 rest = [TimeAfter t, publish_call app ch l])"
| "nack_republishes app l t suf = True"

fun reacquired_publishes :: "string \<Rightarrow> Letter \<Rightarrow> Duration \<Rightarrow> effect list \<Rightarrow> bool" where
  "reacquired_publishes app l t (Got_Channel (Inr ch) # rest) =
     (take 3 rest = [FlushConfirms ch, TimeAfter t, publish_call app ch l])"
| "reacquired_publishes app l t suf = True"

fun failed_submission_restarts :: "string \<Rightarrow> Letter \<Rightarrow> Duration \<Rightarrow> effect list \<Rightarrow> bool" where
  "failed_submission_restarts app l t
       (Channel_Publish ch ex rk m i msg # Publish_Returned (Some e) # rest) =
     (take 2 rest = [ReturnChannel (Some ch) True, Call_GetChannelFromPool]
      \<and> reacquired_publishes app l t (drop 2 rest))"
| "failed_submission_restarts app l t suf = True"

section \<open>Example inputs\<close>

definition example_letter :: Letter where
  "example_letter =
     \<lparr> LetterID = ''1'',
       Envelope = \<lparr> Exchange = ''ex'', RoutingKey = ''rk'', Mandatory = False,
                    Immediate = False, ContentType = ''text/plain'', Headers = [],
                    DeliveryMode = 2, Priority = 0, CorrelationID = '''', Type = '''' \<rparr>,
       Body = [104, 105] \<rparr>"

definition example_publisher :: Publisher where
  "example_publisher = NewPublisher ''app'' 2 50000000"

section \<open>QueueLetter, QueueLetters and safeSend\<close>

text \<open>
  What becomes of a call that can block or panic. The \<^verbatim>\<open>select\<close> of \<^verbatim>\<open>safeSend\<close> has two
  cases and no default: it blocks while neither can proceed, takes the one that can, and
  chooses pseudo-randomly when both can; \<open>pick_send\<close> is that choice. A send on a closed
  channel can proceed, and panics. The deferred function turns a panic into the result
  \<^verbatim>\<open>false\<close>.
\<close>

datatype 'a call = Return 'a | Panics | Blocks

definition chan_send :: "'a channel \<Rightarrow> 'a \<Rightarrow> 'a channel" where
  "chan_send c x = c\<lparr> buffer := buffer c @ [x] \<rparr>"

definition chan_recv :: "'a channel \<Rightarrow> 'a channel" where
  "chan_recv c = c\<lparr> buffer := tl (buffer c) \<rparr>"

definition chan_close :: "'a channel \<Rightarrow> 'a channel" where
  "chan_close c = c\<lparr> closed := True \<rparr>"

definition send_letter :: "'a Publisher_scheme \<Rightarrow> Letter \<Rightarrow> bool call \<times> 'a Publisher_scheme" where
  "send_letter pub letter =
     (if closed (letters pub) then (Panics, pub)
      else (Return True, pub\<lparr> letters := chan_send (letters pub) letter \<rparr>))"

definition safeSend_select ::
    "'a Publisher_scheme \<Rightarrow> Letter \<Rightarrow> bool \<Rightarrow> bool call \<times> 'a Publisher_scheme" where
  "safeSend_select pub letter pick_send =
     (if can_recv (shutdownSignal pub) \<and> can_send (letters pub)
      then (if pick_send then send_letter pub letter else (Return False, pub))
      else if can_recv (shutdownSignal pub) then (Return False, pub)
      else if can_send (letters pub) then send_letter pub letter
      else (Blocks, pub))"

definition safeSend ::
    "'a Publisher_scheme \<Rightarrow> Letter \<Rightarrow> bool \<Rightarrow> bool call \<times> 'a Publisher_scheme" where
  "safeSend pub letter pick_send =
     (case safeSend_select pub letter pick_send of
        (Panics, pub') \<Rightarrow> (Return False, pub')
      | (ok, pub') \<Rightarrow> (ok, pub'))"

definition QueueLetter ::
    "'a Publisher_scheme \<Rightarrow> Letter \<Rightarrow> bool \<Rightarrow> bool call \<times> 'a Publisher_scheme" where
  "QueueLetter pub letter pick_send = safeSend pub letter pick_send"


section \<open>The publisher and its goroutines\<close>

text \<open>
  The publisher with the goroutines it starts, as a transition system: a state is the
  publisher's fields and where each goroutine is; an action is one step of one goroutine or of
  one caller, taken when it can proceed; goroutines interleave at these steps.

  A drain loop is one run of \<^verbatim>\<open>startAutoPublishingLoop\<close>. It is at the \<^verbatim>\<open>select\<close> of
  \<^verbatim>\<open>deliverLetters\<close>, or holds a letter and waits to send into its semaphore, or has left
  \<^verbatim>\<open>deliverLetters\<close> and reset \<open>autoStarted\<close>, or has run its deferred \<^verbatim>\<open>wg.Done\<close>. The
  semaphore is the one this run of \<^verbatim>\<open>deliverLetters\<close> made. The goroutines the loop spawned
  are, in program order, inside \<^verbatim>\<open>PublishWithConfirmation\<close> (\<open>publishing\<close>, with their
  letters), between its return and the receive from the semaphore (\<open>releasing\<close>), or between
  that receive and the deferred \<^verbatim>\<open>wg.Done\<close> (\<open>finishing\<close>).
\<close>

datatype drain_pc = At_Select | At_Semaphore Letter | Returned | Exited

record drain =
  drain_pc :: drain_pc
  parallelPublishSemaphore :: "unit channel"
  publishing :: "Letter list"
  releasing :: nat
  finishing :: nat

text \<open>
  \<open>starting\<close> counts the callers of \<^verbatim>\<open>StartAutoPublishing\<close> that have read \<open>autoStarted\<close>
  as false and not yet set it: the check and the store are two atomic operations.
  \<open>receipt_tasks\<close> are the goroutines of \<^verbatim>\<open>publishReceipt\<close> that have not yet sent, each with
  its receipt. \<open>shutdown_call\<close> is where the call of \<^verbatim>\<open>Shutdown\<close> is: \<open>In_Wait\<close> from the
  close of the signal until \<^verbatim>\<open>wg.Wait()\<close> returns.
\<close>

datatype shutdown_pc = Not_Called | In_Wait | Has_Returned

record system = Publisher +
  starting :: nat
  drains :: "drain list"
  receipt_tasks :: "PublishReceipt list"
  shutdown_call :: shutdown_pc

text \<open>
  The actions, with the statements of the source they stand for:
  \<^item> \<open>StartAutoPublishing_Checks\<close>: \<^verbatim>\<open>if !pub.isAutoStarted()\<close>;
    \<open>StartAutoPublishing_Starts\<close>: \<^verbatim>\<open>setAutoStarted(true); wg.Add(1); go startAutoPublishingLoop()\<close>,
    the new loop making its semaphore of capacity \<^verbatim>\<open>MaxCacheChannelCount/2+1\<close>;
  \<^item> \<open>Drain_Receives i\<close>: the \<^verbatim>\<open>select\<close> of loop \<open>i\<close> takes \<^verbatim>\<open>letter := <-pub.letters\<close>;
    \<open>Drain_Spawns i\<close>: its send into the semaphore proceeds, then \<^verbatim>\<open>wg.Add(1)\<close> and \<^verbatim>\<open>go\<close>;
    \<open>Drain_Sees_Shutdown i\<close>: the \<^verbatim>\<open>select\<close> takes \<^verbatim>\<open><-pub.AwaitShutdown()\<close>,
    \<^verbatim>\<open>deliverLetters\<close> returns and \<^verbatim>\<open>setAutoStarted(false)\<close> runs;
    \<open>Drain_Exits i\<close>: the deferred \<^verbatim>\<open>wg.Done\<close>;
  \<^item> \<open>Attempt_Returns i k acqs subs sels\<close>: the call of \<^verbatim>\<open>PublishWithConfirmation\<close> in the
    \<open>k\<close>-th publishing goroutine of loop \<open>i\<close> returns, in the world \<open>acqs subs sels\<close>; each
    receipt of its run is a \<^verbatim>\<open>publishReceipt\<close> call: \<^verbatim>\<open>wg.Add(1)\<close> and a new receipt goroutine;
    \<open>Attempt_Releases i\<close>: \<^verbatim>\<open><-parallelPublishSemaphore\<close>;
    \<open>Attempt_Exits i\<close>: the deferred \<^verbatim>\<open>wg.Done\<close>;
  \<^item> \<open>Receipt_Sent k\<close>: the send of the \<open>k\<close>-th receipt goroutine into
    \<^verbatim>\<open>pub.publishReceipts\<close> proceeds, then its deferred \<^verbatim>\<open>wg.Done\<close>;
    \<open>Receipt_Read\<close>: a subscriber receives from \<^verbatim>\<open>PublishReceipts()\<close>;
  \<^item> \<open>Call_QueueLetter\<close>, \<open>Call_Publish\<close>, \<open>Call_PublishWithError\<close>,
    \<open>Call_PublishWithConfirmation\<close>: a caller's call of the method returns (a call of
    \<^verbatim>\<open>QueueLetters\<close> is a sequence of \<open>Call_QueueLetter\<close>);
  \<^item> \<open>Call_Shutdown\<close>: \<^verbatim>\<open>close(pub.shutdownSignal)\<close>, which panics on a closed channel, and
    the shutdown of the pool when asked for, which is outside the publisher;
    \<open>Shutdown_Returns\<close>: \<^verbatim>\<open>pub.wg.Wait()\<close> returns, which it can when the counter is 0.
  \<open>step s a\<close> is \<open>None\<close> when \<open>a\<close> cannot proceed in \<open>s\<close> (or would panic).
\<close>

datatype action =
    StartAutoPublishing_Checks
  | StartAutoPublishing_Starts
  | Drain_Receives nat
  | Drain_Spawns nat
  | Drain_Sees_Shutdown nat
  | Drain_Exits nat
  | Attempt_Returns nat nat "(error + chan_host) list" "error option list" "select_case list"
  | Attempt_Releases nat
  | Attempt_Exits nat
  | Receipt_Sent nat
  | Receipt_Read
  | Call_QueueLetter Letter bool
  | Call_Publish Letter bool "(error + chan_host) list" "error option list"
  | Call_PublishWithError Letter bool "(error + chan_host) list" "error option list"
  | Call_PublishWithConfirmation Letter Duration
      "(error + chan_host) list" "error option list" "select_case list"
  | Call_Shutdown bool
  | Shutdown_Returns

definition NewSystem :: "string \<Rightarrow> nat \<Rightarrow> Duration \<Rightarrow> system" where
  "NewSystem appName maxChannels timeOut =
     Publisher.extend (NewPublisher appName maxChannels timeOut)
       \<lparr> starting = 0, drains = [], receipt_tasks = [], shutdown_call = Not_Called \<rparr>"

definition new_drain :: "nat \<Rightarrow> drain" where
  "new_drain n = \<lparr> drain_pc = At_Select, parallelPublishSemaphore = make_chan n,
                   publishing = [], releasing = 0, finishing = 0 \<rparr>"

text \<open>\<^verbatim>\<open>wg.Done()\<close> panics when the counter would become negative.\<close>

definition wg_Done :: "system \<Rightarrow> system option" where
  "wg_Done s = (if wg s - 1 < 0 then None else Some (s\<lparr> wg := wg s - 1 \<rparr>))"

definition go_publishReceipts :: "PublishReceipt list \<Rightarrow> system \<Rightarrow> system" where
  "go_publishReceipts rs s =
     s\<lparr> wg := wg s + int (length rs), receipt_tasks := receipt_tasks s @ rs \<rparr>"

definition set_drain :: "nat \<Rightarrow> drain \<Rightarrow> system \<Rightarrow> system" where
  "set_drain i d s = s\<lparr> drains := (drains s)[i := d] \<rparr>"

definition remove_nth :: "nat \<Rightarrow> 'a list \<Rightarrow> 'a list" where
  "remove_nth k xs = take k xs @ drop (Suc k) xs"

fun step :: "system \<Rightarrow> action \<Rightarrow> system option" where
  "step s StartAutoPublishing_Checks =
     (if \<not> autoStarted s then Some (s\<lparr> starting := starting s + 1 \<rparr>) else Some s)"
| "step s StartAutoPublishing_Starts =
     (if 0 < starting s
      then Some (s\<lparr> starting := starting s - 1, autoStarted := True, wg := wg s + 1,
                    drains := drains s @ [new_drain (MaxCacheChannelCount s div 2 + 1)] \<rparr>)
      else None)"
| "step s (Drain_Receives i) =
     (if i < length (drains s) \<and> drain_pc (drains s ! i) = At_Select
         \<and> buffer (letters s) \<noteq> []
      then Some (set_drain i ((drains s ! i)\<lparr> drain_pc := At_Semaphore (hd (buffer (letters s))) \<rparr>)
                   (s\<lparr> letters := chan_recv (letters s) \<rparr>))
      else None)"
| "step s (Drain_Spawns i) =
     (if i < length (drains s) then
        (case drain_pc (drains s ! i) of
           At_Semaphore letter \<Rightarrow>
             (if can_send (parallelPublishSemaphore (drains s ! i))
              then Some (set_drain i
                     ((drains s ! i)\<lparr> drain_pc := At_Select,
                        parallelPublishSemaphore :=
                          chan_send (parallelPublishSemaphore (drains s ! i)) (),
                        publishing := publishing (drains s ! i) @ [letter] \<rparr>)
                     (s\<lparr> wg := wg s + 1 \<rparr>))
              else None)
         | _ \<Rightarrow> None)
      else None)"
| "step s (Drain_Sees_Shutdown i) =
     (if i < length (drains s) \<and> drain_pc (drains s ! i) = At_Select
         \<and> can_recv (shutdownSignal s)
      then Some (set_drain i ((drains s ! i)\<lparr> drain_pc := Returned \<rparr>)
                   (s\<lparr> autoStarted := False \<rparr>))
      else None)"
| "step s (Drain_Exits i) =
     (if i < length (drains s) \<and> drain_pc (drains s ! i) = Returned
      then wg_Done (set_drain i ((drains s ! i)\<lparr> drain_pc := Exited \<rparr>) s)
      else None)"
| "step s (Attempt_Returns i k acqs subs sels) =
     (if i < length (drains s) \<and> k < length (publishing (drains s ! i))
      then (case PublishWithConfirmation s (publishing (drains s ! i) ! k)
                    (publishTimeOutDuration s) acqs subs sels of
              (tr, Returns u) \<Rightarrow>
                Some (go_publishReceipts (receipts tr)
                       (set_drain i
                          ((drains s ! i)\<lparr> publishing := remove_nth k (publishing (drains s ! i)),
                             releasing := releasing (drains s ! i) + 1 \<rparr>) s))
            | (tr, Pending) \<Rightarrow> None)
      else None)"
| "step s (Attempt_Releases i) =
     (if i < length (drains s) \<and> 0 < releasing (drains s ! i)
         \<and> buffer (parallelPublishSemaphore (drains s ! i)) \<noteq> []
      then Some (set_drain i
                   ((drains s ! i)\<lparr> parallelPublishSemaphore :=
                        chan_recv (parallelPublishSemaphore (drains s ! i)),
                      releasing := releasing (drains s ! i) - 1,
                      finishing := finishing (drains s ! i) + 1 \<rparr>) s)
      else None)"
| "step s (Attempt_Exits i) =
     (if i < length (drains s) \<and> 0 < finishing (drains s ! i)
      then wg_Done (set_drain i
                      ((drains s ! i)\<lparr> finishing := finishing (drains s ! i) - 1 \<rparr>) s)
      else None)"
| "step s (Receipt_Sent k) =
     (if k < length (receipt_tasks s) \<and> \<not> closed (publishReceipts s)
         \<and> can_send (publishReceipts s)
      then wg_Done (s\<lparr> publishReceipts := chan_send (publishReceipts s) (receipt_tasks s ! k),
                        receipt_tasks := remove_nth k (receipt_tasks s) \<rparr>)
      else None)"
| "step s Receipt_Read =
     (if buffer (publishReceipts s) \<noteq> []
      then Some (s\<lparr> publishReceipts := chan_recv (publishReceipts s) \<rparr>)
      else None)"
| "step s (Call_QueueLetter letter pick_send) =
     (case QueueLetter s letter pick_send of
        (Return ok, s') \<Rightarrow> Some s'
      | _ \<Rightarrow> None)"
| "step s (Call_Publish letter skipReceipt acqs subs) =
     (case Publish s letter skipReceipt acqs subs of
        (tr, Returns u) \<Rightarrow> Some (go_publishReceipts (receipts tr) s)
      | (tr, Pending) \<Rightarrow> None)"
| "step s (Call_PublishWithError letter skipReceipt acqs subs) =
     (case PublishWithError s letter skipReceipt acqs subs of
        (tr, Returns err) \<Rightarrow> Some (go_publishReceipts (receipts tr) s)
      | (tr, Pending) \<Rightarrow> None)"
| "step s (Call_PublishWithConfirmation letter timeout acqs subs sels) =
     (case PublishWithConfirmation s letter timeout acqs subs sels of
        (tr, Returns u) \<Rightarrow> Some (go_publishReceipts (receipts tr) s)
      | (tr, Pending) \<Rightarrow> None)"
| "step s (Call_Shutdown shutdownPools) =
     (if closed (shutdownSignal s) then None
      else Some (s\<lparr> shutdownSignal := chan_close (shutdownSignal s),
                    shutdown_call := In_Wait \<rparr>))"
| "step s Shutdown_Returns =
     (if shutdown_call s = In_Wait \<and> wg s = 0
      then Some (s\<lparr> shutdown_call := Has_Returned \<rparr>)
      else None)"

fun run_system :: "system \<Rightarrow> action list \<Rightarrow> system option" where
  "run_system s [] = Some s"
| "run_system s (a # as) = (case step s a of None \<Rightarrow> None | Some s' \<Rightarrow> run_system s' as)"

text \<open>
  The tasks alive in a state: each drain loop that has not exited, each goroutine it spawned
  that has not run its deferred \<^verbatim>\<open>wg.Done\<close>, and each receipt goroutine that has not sent.
\<close>

definition drain_tasks :: "drain \<Rightarrow> nat" where
  "drain_tasks d = (if drain_pc d = Exited then 0 else 1)
                   + length (publishing d) + releasing d + finishing d"

definition live_tasks :: "system \<Rightarrow> nat" where
  "live_tasks s = sum_list (map drain_tasks (drains s)) + length (receipt_tasks s)"

section \<open>Invariants of the publisher and its goroutines\<close>

text \<open>
  Of a drain loop: its goroutines that have not yet received from the semaphore are as many as
  the tokens in it, which are at most its capacity, the one \<^verbatim>\<open>deliverLetters\<close> made it with.
  Of the publisher: the counter of the wait group is the number of tasks alive.
\<close>

definition drain_ok :: "nat \<Rightarrow> drain \<Rightarrow> bool" where
  "drain_ok n d \<longleftrightarrow>
     length (publishing d) + releasing d = length (buffer (parallelPublishSemaphore d))
     \<and> length (buffer (parallelPublishSemaphore d)) \<le> capacity (parallelPublishSemaphore d)
     \<and> capacity (parallelPublishSemaphore d) = n div 2 + 1
     \<and> \<not> closed (parallelPublishSemaphore d)"

definition system_inv :: "nat \<Rightarrow> system \<Rightarrow> bool" where
  "system_inv n s \<longleftrightarrow>
     MaxCacheChannelCount s = n
     \<and> list_all (drain_ok n) (drains s)
     \<and> wg s = int (live_tasks s)"

section \<open>Example states and schedules\<close>


definition example_schedule :: "action list" where
  "example_schedule =
     [StartAutoPublishing_Checks, StartAutoPublishing_Starts, Call_QueueLetter example_letter True, Drain_Receives 0,
      Drain_Spawns 0, Call_Shutdown False,
      Attempt_Returns 0 0 [Inr 7] [None] [Confirmation True],
      Attempt_Releases 0, Attempt_Exits 0, Receipt_Sent 0, Drain_Sees_Shutdown 0,
      Drain_Exits 0]"

definition example_joined :: system where
  "example_joined =
     Publisher.extend
       \<lparr> ApplicationName = ''app'', MaxCacheChannelCount = 2,
         publishReceipts = \<lparr> buffer = [new_receipt example_letter None], capacity = 1000,
                             closed = False \<rparr>,
         autoStarted = False,
         letters = \<lparr> buffer = [], capacity = 1000, closed = False \<rparr>,
         shutdownSignal = \<lparr> buffer = [], capacity = 0, closed = True \<rparr>,
         wg = 0, publishTimeOutDuration = 50000000 \<rparr>
       \<lparr> starting = 0,
         drains = [\<lparr> drain_pc = Exited,
                     parallelPublishSemaphore = \<lparr> buffer = [], capacity = 2, closed = False \<rparr>,
                     publishing = [], releasing = 0, finishing = 0 \<rparr>],
         receipt_tasks = [], shutdown_call = In_Wait \<rparr>"

definition example_waiting :: system where
  "example_waiting =
     Publisher.extend
       \<lparr> ApplicationName = ''app'', MaxCacheChannelCount = 2,
         publishReceipts = \<lparr> buffer = [], capacity = 1000, closed = False \<rparr>,
         autoStarted = True,
         letters = \<lparr> buffer = [], capacity = 1000, closed = False \<rparr>,
         shutdownSignal = \<lparr> buffer = [], capacity = 0, closed = True \<rparr>,
         wg = 1, publishTimeOutDuration = 50000000 \<rparr>
       \<lparr> starting = 0,
         drains = [\<lparr> drain_pc = At_Select,
                     parallelPublishSemaphore = \<lparr> buffer = [], capacity = 2, closed = False \<rparr>,
                     publishing = [], releasing = 0, finishing = 0 \<rparr>],
         receipt_tasks = [], shutdown_call = In_Wait \<rparr>"



section \<open>Lemmas on runs\<close>

lemma fst_after [simp]: "fst (after es r) = es @ fst r"
  by (simp add: after_def)

lemma snd_after [simp]: "snd (after es r) = snd r"
  by (simp add: after_def)

lemma receipts_append [simp]: "receipts (xs @ ys) = receipts xs @ receipts ys"
  by (induction xs rule: receipts.induct) simp_all

lemma holding_append [simp]: "holding h (xs @ ys) = holding (holding h xs) ys"
  by (induction h xs rule: holding.induct) simp_all

lemma receipts_publish_call [simp]: "receipts (publish_call app ch l # es) = receipts es"
  by (simp add: publish_call_def)

lemma holding_publish_call [simp]: "holding h (publish_call app ch l # es) = holding h es"
  by (simp add: publish_call_def)

lemma publish_call_neq [simp]: "publish_call app ch l \<noteq> Recv_timeoutAfter" "Recv_timeoutAfter \<noteq> publish_call app ch l"
  by (simp_all add: publish_call_def)

lemma pwc_timeout_aux:
  "(Recv_timeoutAfter \<in> set (fst (pwc_for app l t acqs subs sels)) \<longrightarrow>
      snd (pwc_for app l t acqs subs sels) = Returns () \<and>
      (\<exists>pre ch. fst (pwc_for app l t acqs subs sels) = pre @ timeout_tail l ch \<and>
         (\<forall>h. holding h pre = Some ch) \<and> receipts pre = []))"
  "(Recv_timeoutAfter \<in> set (fst (pwc_Publish app l t c acqs subs sels)) \<longrightarrow>
      snd (pwc_Publish app l t c acqs subs sels) = Returns () \<and>
      (\<exists>pre ch. fst (pwc_Publish app l t c acqs subs sels) = pre @ timeout_tail l ch \<and>
         holding (Some c) pre = Some ch \<and> receipts pre = []))"
  "(Recv_timeoutAfter \<in> set (fst (pwc_select app l t c acqs subs sels)) \<longrightarrow>
      snd (pwc_select app l t c acqs subs sels) = Returns () \<and>
      (\<exists>pre ch. fst (pwc_select app l t c acqs subs sels) = pre @ timeout_tail l ch \<and>
         holding (Some c) pre = Some ch \<and> receipts pre = []))"
proof (induction app l t acqs subs sels and app l t c acqs subs sels and app l t c acqs subs sels
       rule: pwc_for_pwc_Publish_pwc_select.induct)
  case (1 app letter timeout subs sels)
  then show ?case by simp
next
  case (2 app letter timeout err acqs subs sels)
  then show ?case by (simp add: publishReceipt_def)
next
  case (3 app letter timeout chanHost acqs subs sels)
  show ?case
  proof
    assume "Recv_timeoutAfter \<in> set (fst (pwc_for app letter timeout (Inr chanHost # acqs) subs sels))"
    then have "Recv_timeoutAfter \<in> set (fst (pwc_Publish app letter timeout chanHost acqs subs sels))"
      by simp
    with 3 obtain pre ch where
      "snd (pwc_Publish app letter timeout chanHost acqs subs sels) = Returns ()"
      "fst (pwc_Publish app letter timeout chanHost acqs subs sels) = pre @ timeout_tail letter ch"
      "holding (Some chanHost) pre = Some ch" "receipts pre = []"
      by blast
    then show "snd (pwc_for app letter timeout (Inr chanHost # acqs) subs sels) = Returns () \<and>
      (\<exists>pre ch. fst (pwc_for app letter timeout (Inr chanHost # acqs) subs sels) = pre @ timeout_tail letter ch \<and>
         (\<forall>h. holding h pre = Some ch) \<and> receipts pre = [])"
      by (intro conjI exI[of _ "[Call_GetChannelFromPool, Got_Channel (Inr chanHost), FlushConfirms chanHost] @ pre"] exI[of _ ch]) simp_all
  qed
next
  case (4 app letter timeout chanHost acqs sels)
  then show ?case by simp
next
  case (5 app letter timeout chanHost acqs err subs sels)
  show ?case
  proof
    assume "Recv_timeoutAfter \<in> set (fst (pwc_Publish app letter timeout chanHost acqs (Some err # subs) sels))"
    then have "Recv_timeoutAfter \<in> set (fst (pwc_for app letter timeout acqs subs sels))"
      by simp
    with 5 obtain pre ch where
      "snd (pwc_for app letter timeout acqs subs sels) = Returns ()"
      "fst (pwc_for app letter timeout acqs subs sels) = pre @ timeout_tail letter ch"
      "\<forall>h. holding h pre = Some ch" "receipts pre = []"
      by blast
    then show "snd (pwc_Publish app letter timeout chanHost acqs (Some err # subs) sels) = Returns () \<and>
      (\<exists>pre ch. fst (pwc_Publish app letter timeout chanHost acqs (Some err # subs) sels) = pre @ timeout_tail letter ch \<and>
         holding (Some chanHost) pre = Some ch \<and> receipts pre = [])"
      by (intro conjI exI[of _ "[TimeAfter timeout, publish_call app chanHost letter, Publish_Returned (Some err),
            ReturnChannel (Some chanHost) True] @ pre"] exI[of _ ch]) simp_all
  qed
next
  case (6 app letter timeout chanHost acqs subs sels)
  show ?case
  proof
    assume "Recv_timeoutAfter \<in> set (fst (pwc_Publish app letter timeout chanHost acqs (None # subs) sels))"
    then have "Recv_timeoutAfter \<in> set (fst (pwc_select app letter timeout chanHost acqs subs sels))"
      by simp
    with 6 obtain pre ch where
      "snd (pwc_select app letter timeout chanHost acqs subs sels) = Returns ()"
      "fst (pwc_select app letter timeout chanHost acqs subs sels) = pre @ timeout_tail letter ch"
      "holding (Some chanHost) pre = Some ch" "receipts pre = []"
      by blast
    then show "snd (pwc_Publish app letter timeout chanHost acqs (None # subs) sels) = Returns () \<and>
      (\<exists>pre ch. fst (pwc_Publish app letter timeout chanHost acqs (None # subs) sels) = pre @ timeout_tail letter ch \<and>
         holding (Some chanHost) pre = Some ch \<and> receipts pre = [])"
      by (intro conjI exI[of _ "[TimeAfter timeout, publish_call app chanHost letter, Publish_Returned None] @ pre"] exI[of _ ch]) simp_all
  qed
next
  case (7 app letter timeout chanHost acqs subs)
  then show ?case by simp
next
  case (8 app letter timeout chanHost acqs subs sels)
  show ?case
    by (auto simp: publishReceipt_def new_receipt_def confirmation_timeout_error_def timeout_tail_def
        intro!: exI[of _ "[]"])
next
  case (9 app letter timeout chanHost acqs subs ack sels)
  show ?case
  proof (cases ack)
    case True
    then show ?thesis by (simp add: publishReceipt_def)
  next
    case False
    show ?thesis
    proof
      assume "Recv_timeoutAfter \<in> set (fst (pwc_select app letter timeout chanHost acqs subs (Confirmation ack # sels)))"
      with False have "Recv_timeoutAfter \<in> set (fst (pwc_Publish app letter timeout chanHost acqs subs sels))"
        by simp
      with 9 False obtain pre ch where
        "snd (pwc_Publish app letter timeout chanHost acqs subs sels) = Returns ()"
        "fst (pwc_Publish app letter timeout chanHost acqs subs sels) = pre @ timeout_tail letter ch"
        "holding (Some chanHost) pre = Some ch" "receipts pre = []"
        by blast
      with False show "snd (pwc_select app letter timeout chanHost acqs subs (Confirmation ack # sels)) = Returns () \<and>
        (\<exists>pre ch. fst (pwc_select app letter timeout chanHost acqs subs (Confirmation ack # sels)) = pre @ timeout_tail letter ch \<and>
           holding (Some chanHost) pre = Some ch \<and> receipts pre = [])"
        by (intro conjI exI[of _ "[Recv_Confirmation chanHost False] @ pre"] exI[of _ ch]) simp_all
    qed
  qed
next
  case (10 app letter timeout chanHost acqs subs sels)
  show ?case
  proof
    assume "Recv_timeoutAfter \<in> set (fst (pwc_select app letter timeout chanHost acqs subs (Default # sels)))"
    then have "Recv_timeoutAfter \<in> set (fst (pwc_select app letter timeout chanHost acqs subs sels))"
      by simp
    with 10 obtain pre ch where
      "snd (pwc_select app letter timeout chanHost acqs subs sels) = Returns ()"
      "fst (pwc_select app letter timeout chanHost acqs subs sels) = pre @ timeout_tail letter ch"
      "holding (Some chanHost) pre = Some ch" "receipts pre = []"
      by blast
    then show "snd (pwc_select app letter timeout chanHost acqs subs (Default # sels)) = Returns () \<and>
      (\<exists>pre ch. fst (pwc_select app letter timeout chanHost acqs subs (Default # sels)) = pre @ timeout_tail letter ch \<and>
         holding (Some chanHost) pre = Some ch \<and> receipts pre = [])"
      by (intro conjI exI[of _ "[Sleep (1 * Millisecond)] @ pre"] exI[of _ ch]) simp_all
  qed
qed

lemma each_suffix_iff: "each_suffix P xs \<longleftrightarrow> (\<forall>pre suf. xs = pre @ suf \<longrightarrow> P suf)"
proof (induction xs)
  case Nil
  then show ?case by simp
next
  case (Cons x xs)
  show ?case
  proof
    assume a: "each_suffix P (x # xs)"
    show "\<forall>pre suf. x # xs = pre @ suf \<longrightarrow> P suf"
    proof (intro allI impI)
      fix pre suf assume e: "x # xs = pre @ suf"
      show "P suf"
      proof (cases pre)
        case Nil
        with e have "suf = x # xs" by simp
        with a show ?thesis by simp
      next
        case (Cons y ys)
        with e have "xs = ys @ suf" by simp
        with a Cons.IH show ?thesis by simp
      qed
    qed
  next
    assume a: "\<forall>pre suf. x # xs = pre @ suf \<longrightarrow> P suf"
    then have "P (x # xs)" by simp
    moreover have "\<forall>pre suf. xs = pre @ suf \<longrightarrow> P suf"
    proof (intro allI impI)
      fix pre suf assume "xs = pre @ suf"
      then have "x # xs = (x # pre) @ suf" by simp
      with a show "P suf" by blast
    qed
    ultimately show "each_suffix P (x # xs)" using Cons.IH by simp
  qed
qed

lemma pwc_Publish_head:
  "\<exists>rest. fst (pwc_Publish app l t ch acqs subs sels) = TimeAfter t # publish_call app ch l # rest"
proof (cases subs)
  case Nil
  then show ?thesis by simp
next
  case (Cons s subs')
  then show ?thesis by (cases s) simp_all
qed

lemma nack_republishes_publish_call [simp]:
  "nack_republishes app l t (publish_call app' ch l' # es)"
  by (simp add: publish_call_def)

lemma pwc_nack_aux:
  "each_suffix (nack_republishes app l t) (fst (pwc_for app l t acqs subs sels))"
  "each_suffix (nack_republishes app l t) (fst (pwc_Publish app l t c acqs subs sels))"
  "each_suffix (nack_republishes app l t) (fst (pwc_select app l t c acqs subs sels))"
proof (induction app l t acqs subs sels and app l t c acqs subs sels and app l t c acqs subs sels
       rule: pwc_for_pwc_Publish_pwc_select.induct)
  case (9 app letter timeout chanHost acqs subs ack sels)
  show ?case
  proof (cases ack)
    case True
    then show ?thesis by (simp add: publishReceipt_def)
  next
    case False
    obtain rest where "fst (pwc_Publish app letter timeout chanHost acqs subs sels)
        = TimeAfter timeout # publish_call app chanHost letter # rest"
      using pwc_Publish_head by blast
    with 9 False show ?thesis by simp
  qed
qed (simp_all add: publishReceipt_def)

lemma pwc_for_head:
  "fst (pwc_for app l t acqs subs sels) = [Call_GetChannelFromPool] \<or>
   (\<exists>e rest. fst (pwc_for app l t acqs subs sels)
        = Call_GetChannelFromPool # Got_Channel (Inl e) # rest) \<or>
   (\<exists>ch rest. fst (pwc_for app l t acqs subs sels)
        = Call_GetChannelFromPool # Got_Channel (Inr ch) # FlushConfirms ch
            # TimeAfter t # publish_call app ch l # rest)"
proof (cases acqs)
  case Nil
  then show ?thesis by simp
next
  case (Cons a acqs')
  show ?thesis
  proof (cases a)
    case (Inl e)
    with Cons show ?thesis by simp
  next
    case (Inr ch)
    obtain rest where "fst (pwc_Publish app l t ch acqs' subs sels)
        = TimeAfter t # publish_call app ch l # rest"
      using pwc_Publish_head by blast
    with Cons Inr show ?thesis by simp
  qed
qed

lemma failed_submission_restarts_simps [simp]:
  "failed_submission_restarts app l t [e]"
  "failed_submission_restarts app l t (e # Publish_Returned None # es)"
  "failed_submission_restarts app l t (e # FlushConfirms c # es)"
  "failed_submission_restarts app l t (e # TimeAfter d # es)"
  "failed_submission_restarts app l t (e # Call_GetChannelFromPool # es)"
  "failed_submission_restarts app l t (e # Got_Channel g # es)"
  "failed_submission_restarts app l t (e # Recv_timeoutAfter # es)"
  "failed_submission_restarts app l t (e # Recv_Confirmation c b # es)"
  "failed_submission_restarts app l t (e # Sleep d # es)"
  "failed_submission_restarts app l t (e # Emit_Receipt r # es)"
  "failed_submission_restarts app l t (e # ReturnChannel co b # es)"
  "failed_submission_restarts app l t (e # publish_call app' c l' # es)"
  by (cases e; simp add: publish_call_def)+

lemma not_publish_restarts [simp]:
  "submissions [e] = [] \<Longrightarrow> failed_submission_restarts app l t (e # es)"
  by (cases e; cases es; simp)

lemma pwc_restart_aux:
  "each_suffix (failed_submission_restarts app l t) (fst (pwc_for app l t acqs subs sels))"
  "each_suffix (failed_submission_restarts app l t) (fst (pwc_Publish app l t c acqs subs sels))"
  "each_suffix (failed_submission_restarts app l t) (fst (pwc_select app l t c acqs subs sels))"
proof (induction app l t acqs subs sels and app l t c acqs subs sels and app l t c acqs subs sels
       rule: pwc_for_pwc_Publish_pwc_select.induct)
  case (5 app letter timeout chanHost acqs err subs sels)
  from pwc_for_head [of app letter timeout acqs subs sels]
  have "failed_submission_restarts app letter timeout
          (publish_call app chanHost letter # Publish_Returned (Some err)
             # ReturnChannel (Some chanHost) True # fst (pwc_for app letter timeout acqs subs sels))"
    by (auto simp: publish_call_def)
  with 5 show ?case by simp
next
  case (9 app letter timeout chanHost acqs subs ack sels)
  then show ?case by (cases ack) (simp_all add: publishReceipt_def)
qed (simp_all add: publishReceipt_def)

lemma new_receipt_fields:
  "ReceiptLetterID (new_receipt l e) = LetterID l"
  "Success (new_receipt l e) \<longleftrightarrow> e = None"
  "Error (new_receipt l e) = e"
  "FailedLetter (new_receipt l e) = (if e = None then None else Some l)"
  by (simp_all add: new_receipt_def Let_def)

lemma pwc_receipts_aux:
  "r \<in> set (receipts (fst (pwc_for app l t acqs subs sels))) \<longrightarrow> (\<exists>e. r = new_receipt l e)"
  "r \<in> set (receipts (fst (pwc_Publish app l t c acqs subs sels))) \<longrightarrow> (\<exists>e. r = new_receipt l e)"
  "r \<in> set (receipts (fst (pwc_select app l t c acqs subs sels))) \<longrightarrow> (\<exists>e. r = new_receipt l e)"
proof (induction app l t acqs subs sels and app l t c acqs subs sels and app l t c acqs subs sels
       rule: pwc_for_pwc_Publish_pwc_select.induct)
  case (9 app letter timeout chanHost acqs subs ack sels)
  then show ?case by (cases ack) (auto simp: publishReceipt_def)
qed (auto simp: publishReceipt_def)

lemma Publish_receipts_aux:
  "r \<in> set (receipts (fst (Publish pub l skip acqs subs))) \<Longrightarrow> \<exists>e. r = new_receipt l e"
  by (induction pub l skip acqs subs rule: Publish.induct)
     (auto simp: publishReceipt_def split: if_splits)

lemma PublishWithError_receipts_aux:
  "r \<in> set (receipts (fst (PublishWithError pub l skip acqs subs))) \<Longrightarrow> \<exists>e. r = new_receipt l e"
  by (induction pub l skip acqs subs rule: PublishWithError.induct)
     (auto simp: publishReceipt_def split: if_splits)

lemma take_2_eq: "take 2 xs = [a, b] \<Longrightarrow> \<exists>r. xs = a # b # r"
proof (cases xs)
  case Nil
  assume "take 2 xs = [a, b]"
  with Nil show ?thesis by simp
next
  case (Cons x ys)
  assume t: "take 2 xs = [a, b]"
  with Cons show ?thesis by (cases ys) simp_all
qed

lemma take_3_eq: "take 3 xs = [a, b, c] \<Longrightarrow> \<exists>r. xs = a # b # c # r"
proof (cases xs)
  case Nil
  assume "take 3 xs = [a, b, c]"
  with Nil show ?thesis by simp
next
  case (Cons x ys)
  assume t: "take 3 xs = [a, b, c]"
  show ?thesis
  proof (cases ys)
    case Nil
    with Cons t show ?thesis by simp
  next
    case (Cons y zs)
    with \<open>xs = x # ys\<close> t show ?thesis by (cases zs) simp_all
  qed
qed

lemma each_suffixD: "each_suffix P xs \<Longrightarrow> xs = pre @ suf \<Longrightarrow> P suf"
  by (simp add: each_suffix_iff)

lemma submissions_append [simp]: "submissions (xs @ ys) = submissions xs @ submissions ys"
  by (induction xs rule: submissions.induct) simp_all

lemma submissions_publish_call [simp]:
  "submissions (publish_call app ch l # es) = publish_call app ch l # submissions es"
  by (simp add: publish_call_def)

lemma nacks_keep_select_pending:
  "snd (pwc_select app l t c acqs (replicate n None) (replicate n (Confirmation False))) = Pending
   \<and> submissions (fst (pwc_select app l t c acqs (replicate n None)
         (replicate n (Confirmation False)))) = replicate n (publish_call app c l)
   \<and> receipts (fst (pwc_select app l t c acqs (replicate n None)
         (replicate n (Confirmation False)))) = []"
  by (induction n) simp_all

lemma failures_keep_for_pending:
  "snd (pwc_for app l t (map Inr (c # cs)) (replicate (length cs) (Some e)) []) = Pending
   \<and> submissions (fst (pwc_for app l t (map Inr (c # cs)) (replicate (length cs) (Some e)) []))
       = map (\<lambda>ch. publish_call app ch l) (c # cs)
   \<and> receipts (fst (pwc_for app l t (map Inr (c # cs)) (replicate (length cs) (Some e)) [])) = []"
  by (induction cs arbitrary: c) simp_all

lemma returned_channels_publish_call [simp]:
  "returned_channels (publish_call app ch l # es) = returned_channels es"
  by (simp add: publish_call_def)

section \<open>Lemmas on the letters queue\<close>







section \<open>Lemmas on the invariants\<close>

text \<open>
  The capacity of the semaphore is computed on the unsigned 64-bit count of the configuration;
  \<^verbatim>\<open>MaxCacheChannelCount/2+1\<close> cannot wrap around, so the model computes it on \<open>nat\<close>.
\<close>

lemma uint64_half_plus_one:
  "unat ((w :: 64 word) div 2 + 1) = unat w div 2 + 1"
proof -
  have "unat w < 2 ^ 64"
    using unsigned_less [of w] by simp
  then have h: "unat w div 2 + 1 < 2 ^ 64"
    by simp
  have "unat (w div 2) = unat w div 2"
    by (simp add: unat_div)
  with h show ?thesis
    by (simp add: unat_add_lem [THEN iffD1])
qed

lemma sum_list_map_update:
  "i < length xs \<Longrightarrow>
   sum_list (map f (xs[i := y])) + f (xs ! i) = sum_list (map f xs) + (f y :: nat)"
proof (induction xs arbitrary: i)
  case Nil
  then show ?case by simp
next
  case (Cons x xs)
  then show ?case by (cases i) auto
qed

lemma list_all_update:
  "list_all P xs \<Longrightarrow> P y \<Longrightarrow> list_all P (xs[i := y])"
proof (induction xs arbitrary: i)
  case Nil
  then show ?case by simp
next
  case (Cons x xs)
  then show ?case by (cases i) auto
qed

lemma list_all_nth: "list_all P xs \<Longrightarrow> i < length xs \<Longrightarrow> P (xs ! i)"
  by (simp add: list_all_length)

lemma length_remove_nth: "k < length xs \<Longrightarrow> Suc (length (remove_nth k xs)) = length xs"
  by (simp add: remove_nth_def)

lemma live_tasks_set_drain:
  "i < length (drains s) \<Longrightarrow>
   live_tasks (set_drain i d s) + drain_tasks (drains s ! i) = live_tasks s + drain_tasks d"
  using sum_list_map_update [of i "drains s" drain_tasks d]
  by (simp add: live_tasks_def set_drain_def)

lemma set_drain_fields [simp]:
  "drains (set_drain i d s) = (drains s)[i := d]"
  "wg (set_drain i d s) = wg s"
  "MaxCacheChannelCount (set_drain i d s) = MaxCacheChannelCount s"
  "receipt_tasks (set_drain i d s) = receipt_tasks s"
  by (simp_all add: set_drain_def)

lemma go_publishReceipts_fields [simp]:
  "drains (go_publishReceipts rs s) = drains s"
  "wg (go_publishReceipts rs s) = wg s + int (length rs)"
  "MaxCacheChannelCount (go_publishReceipts rs s) = MaxCacheChannelCount s"
  "receipt_tasks (go_publishReceipts rs s) = receipt_tasks s @ rs"
  by (simp_all add: go_publishReceipts_def)

lemma live_tasks_go_publishReceipts:
  "live_tasks (go_publishReceipts rs s) = live_tasks s + length rs"
  by (simp add: live_tasks_def)

lemma system_inv_go_publishReceipts:
  "system_inv n s \<Longrightarrow> system_inv n (go_publishReceipts rs s)"
  by (simp add: system_inv_def live_tasks_go_publishReceipts)

lemma system_inv_set_drain:
  assumes "system_inv n s" and "i < length (drains s)" and "drain_ok n d"
    and "wg' = wg s + int (drain_tasks d) - int (drain_tasks (drains s ! i))"
  shows "system_inv n ((set_drain i d s)\<lparr> wg := wg' \<rparr>)"
proof -
  from live_tasks_set_drain [OF assms(2), of d]
  have "int (live_tasks (set_drain i d s)) = int (live_tasks s) + int (drain_tasks d)
          - int (drain_tasks (drains s ! i))"
    by linarith
  moreover have "live_tasks ((set_drain i d s)\<lparr> wg := wg' \<rparr>) = live_tasks (set_drain i d s)"
    by (simp add: live_tasks_def)
  ultimately show ?thesis
    using assms by (simp add: system_inv_def list_all_update)
qed

lemma system_inv_init: "system_inv n (NewSystem app n t)"
  by (simp add: system_inv_def NewSystem_def NewPublisher_def Publisher.extend_def
      live_tasks_def system.defs Publisher.defs)

lemma wg_Done_inv:
  assumes "wg_Done s = Some s'" and "MaxCacheChannelCount s = n"
    and "list_all (drain_ok n) (drains s)" and "wg s = int (live_tasks s) + 1"
  shows "system_inv n s'"
proof -
  from assms(1) have "s' = s\<lparr> wg := wg s - 1 \<rparr>"
    by (simp add: wg_Done_def split: if_splits)
  with assms(2-4) show ?thesis
    by (simp add: system_inv_def live_tasks_def)
qed

lemma safeSend_system:
  "snd (safeSend s letter pick) = s
   \<or> snd (safeSend s letter pick) = s\<lparr> letters := chan_send (letters s) letter \<rparr>"
  by (simp add: safeSend_def safeSend_select_def send_letter_def)

lemma system_inv_letters [simp]:
  "system_inv n (s\<lparr> letters := c \<rparr>) = system_inv n s"
  by (simp add: system_inv_def live_tasks_def)

lemma system_inv_publishReceipts [simp]:
  "system_inv n (s\<lparr> publishReceipts := c \<rparr>) = system_inv n s"
  by (simp add: system_inv_def live_tasks_def)

lemma system_inv_autoStarted [simp]:
  "system_inv n (s\<lparr> autoStarted := b \<rparr>) = system_inv n s"
  by (simp add: system_inv_def live_tasks_def)

lemma system_inv_shutdown [simp]:
  "system_inv n (s\<lparr> shutdownSignal := c, shutdown_call := p \<rparr>) = system_inv n s"
  "system_inv n (s\<lparr> shutdown_call := p \<rparr>) = system_inv n s"
  "system_inv n (s\<lparr> shutdownSignal := c \<rparr>) = system_inv n s"
  "system_inv n (s\<lparr> starting := k \<rparr>) = system_inv n s"
  by (simp_all add: system_inv_def live_tasks_def)

lemma set_drain_wg:
  "set_drain i d (s\<lparr> wg := w \<rparr>) = (set_drain i d s)\<lparr> wg := w \<rparr>"
  "set_drain i d (s\<lparr> letters := c \<rparr>) = (set_drain i d s)\<lparr> letters := c \<rparr>"
  "set_drain i d (s\<lparr> autoStarted := b \<rparr>) = (set_drain i d s)\<lparr> autoStarted := b \<rparr>"
  by (simp_all add: set_drain_def)

lemma set_drain_same_wg:
  "system_inv n s \<Longrightarrow> i < length (drains s) \<Longrightarrow> drain_ok n d \<Longrightarrow>
   drain_tasks d = drain_tasks (drains s ! i) \<Longrightarrow> system_inv n (set_drain i d s)"
  using system_inv_set_drain [of n s i d "wg s"]
  by (simp add: set_drain_def)

lemma step_StartAutoPublishing_Starts:
  assumes "system_inv n s" and "step s StartAutoPublishing_Starts = Some s'"
  shows "system_inv n s'"
proof -
  from assms(2) have "s' = s\<lparr> starting := starting s - 1, autoStarted := True, wg := wg s + 1,
      drains := drains s @ [new_drain (MaxCacheChannelCount s div 2 + 1)] \<rparr>"
    by (simp split: if_splits)
  with assms(1) show ?thesis
    by (simp add: system_inv_def live_tasks_def drain_tasks_def new_drain_def drain_ok_def
        make_chan_def)
qed

lemma step_Drain_Receives:
  assumes "system_inv n s" and "step s (Drain_Receives i) = Some s'"
  shows "system_inv n s'"
proof -
  let ?d = "drains s ! i"
  from assms(2) have i: "i < length (drains s)" and pc: "drain_pc ?d = At_Select"
    and s': "s' = set_drain i (?d\<lparr> drain_pc := At_Semaphore (hd (buffer (letters s))) \<rparr>)
                   (s\<lparr> letters := chan_recv (letters s) \<rparr>)"
    by (simp_all split: if_splits)
  from assms(1) i have ok: "drain_ok n ?d"
    by (simp add: system_inv_def list_all_nth)
  have "system_inv n (set_drain i (?d\<lparr> drain_pc := At_Semaphore (hd (buffer (letters s))) \<rparr>) s)"
    using assms(1) i
  proof (rule set_drain_same_wg)
    show "drain_ok n (?d\<lparr> drain_pc := At_Semaphore (hd (buffer (letters s))) \<rparr>)"
      using ok by (simp add: drain_ok_def)
    show "drain_tasks (?d\<lparr> drain_pc := At_Semaphore (hd (buffer (letters s))) \<rparr>) = drain_tasks ?d"
      using pc by (simp add: drain_tasks_def)
  qed
  then show ?thesis unfolding s' by (simp add: set_drain_wg)
qed

lemma step_Drain_Spawns:
  assumes "system_inv n s" and "step s (Drain_Spawns i) = Some s'"
  shows "system_inv n s'"
proof -
  let ?d = "drains s ! i"
  from assms(2) have i: "i < length (drains s)"
    by (simp split: if_splits)
  from assms(2) i obtain letter where pc: "drain_pc ?d = At_Semaphore letter"
    by (cases "drain_pc ?d") simp_all
  let ?d' = "?d\<lparr> drain_pc := At_Select,
                parallelPublishSemaphore := chan_send (parallelPublishSemaphore ?d) (),
                publishing := publishing ?d @ [letter] \<rparr>"
  from assms(2) i pc have room: "can_send (parallelPublishSemaphore ?d)"
    and s': "s' = set_drain i ?d' (s\<lparr> wg := wg s + 1 \<rparr>)"
    by (simp_all split: if_splits)
  from assms(1) i have ok: "drain_ok n ?d"
    by (simp add: system_inv_def list_all_nth)
  have "system_inv n ((set_drain i ?d' s)\<lparr> wg := wg s + 1 \<rparr>)"
    using assms(1) i
  proof (rule system_inv_set_drain)
    show "drain_ok n ?d'"
      using ok room by (auto simp: drain_ok_def can_send_def chan_send_def)
    show "wg s + 1 = wg s + int (drain_tasks ?d') - int (drain_tasks ?d)"
      using pc by (simp add: drain_tasks_def)
  qed
  then show ?thesis unfolding s' by (simp add: set_drain_wg)
qed

lemma step_Drain_Sees_Shutdown:
  assumes "system_inv n s" and "step s (Drain_Sees_Shutdown i) = Some s'"
  shows "system_inv n s'"
proof -
  let ?d = "drains s ! i"
  from assms(2) have i: "i < length (drains s)" and pc: "drain_pc ?d = At_Select"
    and s': "s' = set_drain i (?d\<lparr> drain_pc := Returned \<rparr>) (s\<lparr> autoStarted := False \<rparr>)"
    by (simp_all split: if_splits)
  from assms(1) i have ok: "drain_ok n ?d"
    by (simp add: system_inv_def list_all_nth)
  have "system_inv n (set_drain i (?d\<lparr> drain_pc := Returned \<rparr>) s)"
    using assms(1) i
  proof (rule set_drain_same_wg)
    show "drain_ok n (?d\<lparr> drain_pc := Returned \<rparr>)"
      using ok by (simp add: drain_ok_def)
    show "drain_tasks (?d\<lparr> drain_pc := Returned \<rparr>) = drain_tasks ?d"
      using pc by (simp add: drain_tasks_def)
  qed
  then show ?thesis unfolding s' by (simp add: set_drain_wg)
qed

lemma step_Drain_Exits:
  assumes "system_inv n s" and "step s (Drain_Exits i) = Some s'"
  shows "system_inv n s'"
proof -
  let ?d = "drains s ! i"
  from assms(2) have i: "i < length (drains s)" and pc: "drain_pc ?d = Returned"
    and s': "wg_Done (set_drain i (?d\<lparr> drain_pc := Exited \<rparr>) s) = Some s'"
    by (simp_all split: if_splits)
  from assms(1) i have ok: "drain_ok n ?d"
    by (simp add: system_inv_def list_all_nth)
  from s' show ?thesis
  proof (rule wg_Done_inv)
    show "MaxCacheChannelCount (set_drain i (?d\<lparr> drain_pc := Exited \<rparr>) s) = n"
      using assms(1) by (simp add: system_inv_def)
    show "list_all (drain_ok n) (drains (set_drain i (?d\<lparr> drain_pc := Exited \<rparr>) s))"
      using assms(1) ok by (simp add: system_inv_def list_all_update drain_ok_def)
    have "drain_tasks ?d = drain_tasks (?d\<lparr> drain_pc := Exited \<rparr>) + 1"
      using pc by (simp add: drain_tasks_def)
    with live_tasks_set_drain [OF i, of "?d\<lparr> drain_pc := Exited \<rparr>"]
    have "live_tasks s = live_tasks (set_drain i (?d\<lparr> drain_pc := Exited \<rparr>) s) + 1"
      by linarith
    with assms(1)
    show "wg (set_drain i (?d\<lparr> drain_pc := Exited \<rparr>) s)
            = int (live_tasks (set_drain i (?d\<lparr> drain_pc := Exited \<rparr>) s)) + 1"
      by (simp add: system_inv_def)
  qed
qed

lemma step_Attempt_Returns:
  assumes "system_inv n s" and "step s (Attempt_Returns i k acqs subs sels) = Some s'"
  shows "system_inv n s'"
proof -
  let ?d = "drains s ! i"
  let ?d' = "?d\<lparr> publishing := remove_nth k (publishing ?d), releasing := releasing ?d + 1 \<rparr>"
  from assms(2) have i: "i < length (drains s)" and k: "k < length (publishing ?d)"
    by (simp_all split: if_splits)
  from assms(2) i k obtain tr where s': "s' = go_publishReceipts (receipts tr) (set_drain i ?d' s)"
    by (auto split: prod.splits outcome.splits)
  from assms(1) i have ok: "drain_ok n ?d"
    by (simp add: system_inv_def list_all_nth)
  have "system_inv n (set_drain i ?d' s)"
    using assms(1) i
  proof (rule set_drain_same_wg)
    show "drain_ok n ?d'"
      using ok length_remove_nth [OF k] by (simp add: drain_ok_def)
    show "drain_tasks ?d' = drain_tasks ?d"
      using length_remove_nth [OF k] by (simp add: drain_tasks_def)
  qed
  then show ?thesis unfolding s' by (rule system_inv_go_publishReceipts)
qed

lemma step_Attempt_Releases:
  assumes "system_inv n s" and "step s (Attempt_Releases i) = Some s'"
  shows "system_inv n s'"
proof -
  let ?d = "drains s ! i"
  let ?d' = "?d\<lparr> parallelPublishSemaphore := chan_recv (parallelPublishSemaphore ?d),
                releasing := releasing ?d - 1, finishing := finishing ?d + 1 \<rparr>"
  from assms(2) have i: "i < length (drains s)" and r: "0 < releasing ?d"
    and b: "buffer (parallelPublishSemaphore ?d) \<noteq> []"
    and s': "s' = set_drain i ?d' s"
    by (simp_all split: if_splits)
  from assms(1) i have ok: "drain_ok n ?d"
    by (simp add: system_inv_def list_all_nth)
  show ?thesis unfolding s' using assms(1) i
  proof (rule set_drain_same_wg)
    show "drain_ok n ?d'"
      using ok r b by (auto simp: drain_ok_def chan_recv_def)
    show "drain_tasks ?d' = drain_tasks ?d"
      using r by (simp add: drain_tasks_def)
  qed
qed

lemma step_Attempt_Exits:
  assumes "system_inv n s" and "step s (Attempt_Exits i) = Some s'"
  shows "system_inv n s'"
proof -
  let ?d = "drains s ! i"
  let ?d' = "?d\<lparr> finishing := finishing ?d - 1 \<rparr>"
  from assms(2) have i: "i < length (drains s)" and f: "0 < finishing ?d"
    and s': "wg_Done (set_drain i ?d' s) = Some s'"
    by (simp_all split: if_splits)
  from assms(1) i have ok: "drain_ok n ?d"
    by (simp add: system_inv_def list_all_nth)
  from s' show ?thesis
  proof (rule wg_Done_inv)
    show "MaxCacheChannelCount (set_drain i ?d' s) = n"
      using assms(1) by (simp add: system_inv_def)
    show "list_all (drain_ok n) (drains (set_drain i ?d' s))"
      using assms(1) ok by (simp add: system_inv_def list_all_update drain_ok_def)
    have "drain_tasks ?d = drain_tasks ?d' + 1"
      using f by (simp add: drain_tasks_def)
    with live_tasks_set_drain [OF i, of ?d']
    have "live_tasks s = live_tasks (set_drain i ?d' s) + 1"
      by linarith
    with assms(1)
    show "wg (set_drain i ?d' s) = int (live_tasks (set_drain i ?d' s)) + 1"
      by (simp add: system_inv_def)
  qed
qed

lemma step_Receipt_Sent:
  assumes "system_inv n s" and "step s (Receipt_Sent k) = Some s'"
  shows "system_inv n s'"
proof -
  let ?s = "s\<lparr> publishReceipts := chan_send (publishReceipts s) (receipt_tasks s ! k),
               receipt_tasks := remove_nth k (receipt_tasks s) \<rparr>"
  from assms(2) have k: "k < length (receipt_tasks s)" and s': "wg_Done ?s = Some s'"
    by (simp_all split: if_splits)
  from s' show ?thesis
  proof (rule wg_Done_inv)
    show "MaxCacheChannelCount ?s = n"
      using assms(1) by (simp add: system_inv_def)
    show "list_all (drain_ok n) (drains ?s)"
      using assms(1) by (simp add: system_inv_def)
    show "wg ?s = int (live_tasks ?s) + 1"
      using assms(1) length_remove_nth [OF k] by (simp add: system_inv_def live_tasks_def)
  qed
qed

lemma step_Call_QueueLetter:
  assumes "system_inv n s" and "step s (Call_QueueLetter letter pick) = Some s'"
  shows "system_inv n s'"
proof -
  from assms(2) have "s' = snd (safeSend s letter pick)"
    by (auto simp: QueueLetter_def split: prod.splits call.splits)
  with safeSend_system [of s letter pick] assms(1) show ?thesis
    by auto
qed

lemma step_inv:
  assumes "system_inv n s" and "step s a = Some s'"
  shows "system_inv n s'"
proof (cases a)
  case StartAutoPublishing_Checks
  with assms show ?thesis by (auto split: if_splits)
next
  case StartAutoPublishing_Starts
  with assms show ?thesis by (simp only: step_StartAutoPublishing_Starts)
next
  case (Drain_Receives i)
  with assms show ?thesis by (simp only: step_Drain_Receives)
next
  case (Drain_Spawns i)
  with assms show ?thesis by (simp only: step_Drain_Spawns)
next
  case (Drain_Sees_Shutdown i)
  with assms show ?thesis by (simp only: step_Drain_Sees_Shutdown)
next
  case (Drain_Exits i)
  with assms show ?thesis by (simp only: step_Drain_Exits)
next
  case (Attempt_Returns i k acqs subs sels)
  with assms show ?thesis by (simp only: step_Attempt_Returns)
next
  case (Attempt_Releases i)
  with assms show ?thesis by (simp only: step_Attempt_Releases)
next
  case (Attempt_Exits i)
  with assms show ?thesis by (simp only: step_Attempt_Exits)
next
  case (Receipt_Sent k)
  with assms show ?thesis by (simp only: step_Receipt_Sent)
next
  case Receipt_Read
  with assms show ?thesis by (auto split: if_splits)
next
  case (Call_QueueLetter letter pick)
  with assms show ?thesis by (simp only: step_Call_QueueLetter)
next
  case (Call_Publish letter skip acqs subs)
  with assms show ?thesis
    by (auto split: prod.splits outcome.splits intro: system_inv_go_publishReceipts)
next
  case (Call_PublishWithError letter skip acqs subs)
  with assms show ?thesis
    by (auto split: prod.splits outcome.splits intro: system_inv_go_publishReceipts)
next
  case (Call_PublishWithConfirmation letter timeout acqs subs sels)
  with assms show ?thesis
    by (auto split: prod.splits outcome.splits intro: system_inv_go_publishReceipts)
next
  case (Call_Shutdown shutdownPools)
  with assms show ?thesis by (auto split: if_splits)
next
  case Shutdown_Returns
  with assms show ?thesis by (auto split: if_splits)
qed

lemma run_system_inv:
  "system_inv n s \<Longrightarrow> run_system s as = Some s' \<Longrightarrow> system_inv n s'"
proof (induction as arbitrary: s)
  case Nil
  then show ?case by simp
next
  case (Cons a as)
  from Cons.prems(2) obtain s1 where s1: "step s a = Some s1" and r: "run_system s1 as = Some s'"
    by (auto split: option.splits)
  from Cons.prems(1) s1 have "system_inv n s1" by (rule step_inv)
  then show ?case using r by (rule Cons.IH)
qed

lemma live_tasks_zero:
  "live_tasks s = 0 \<Longrightarrow>
   list_all (\<lambda>d. drain_pc d = Exited \<and> publishing d = [] \<and> releasing d = 0 \<and> finishing d = 0)
     (drains s) \<and> receipt_tasks s = []"
  by (auto simp: live_tasks_def drain_tasks_def list_all_iff split: if_splits)

lemmas example_defs =
  NewSystem_def NewPublisher_def Publisher.extend_def after_def
  make_chan_def chan_close_def chan_send_def chan_recv_def QueueLetter_def safeSend_def
  safeSend_select_def send_letter_def can_recv_def can_send_def set_drain_def
  go_publishReceipts_def wg_Done_def remove_nth_def new_drain_def
  PublishWithConfirmation_def publishReceipt_def

lemma example_waiting_run:
  "run_system (NewSystem ''app'' 2 50000000)
     [StartAutoPublishing_Checks, StartAutoPublishing_Starts, Call_Shutdown False]
     = Some example_waiting"
  by (simp add: example_waiting_def example_defs)


lemma example_schedule_run:
  "run_system (NewSystem ''app'' 2 50000000) example_schedule = Some example_joined"
  by (simp add: example_schedule_def example_joined_def example_defs)

section \<open>The claims\<close>

text \<open>
  C4. Every receipt a run of \<^verbatim>\<open>Publish\<close>, \<^verbatim>\<open>PublishWithError\<close> or
  \<^verbatim>\<open>PublishWithConfirmation\<close> emits carries the \<open>LetterID\<close> of the letter the method was
  called with; its \<open>Success\<close> is true exactly when its \<open>Error\<close> is nil; its
  \<open>FailedLetter\<close> is present exactly when the error is not nil, and is then that letter.
  (\<open>new_receipt_fields\<close> says the same of any call of \<^verbatim>\<open>publishReceipt\<close>.)
\<close>

theorem receipt_references_its_letter:
  assumes "r \<in> set (receipts (fst (Publish pub letter skipReceipt acqs subs)))
         \<or> r \<in> set (receipts (fst (PublishWithError pub letter skipReceipt acqs subs)))
         \<or> r \<in> set (receipts (fst (PublishWithConfirmation pub letter timeout acqs subs sels)))"
  shows "ReceiptLetterID r = LetterID letter
       \<and> (Success r \<longleftrightarrow> Error r = None)
       \<and> (FailedLetter r \<noteq> None \<longleftrightarrow> Error r \<noteq> None)
       \<and> (Error r \<noteq> None \<longrightarrow> FailedLetter r = Some letter)"
proof -
  from assms have "\<exists>e. r = new_receipt letter e"
  proof (elim disjE)
    assume "r \<in> set (receipts (fst (Publish pub letter skipReceipt acqs subs)))"
    then show ?thesis by (rule Publish_receipts_aux)
  next
    assume "r \<in> set (receipts (fst (PublishWithError pub letter skipReceipt acqs subs)))"
    then show ?thesis by (rule PublishWithError_receipts_aux)
  next
    assume "r \<in> set (receipts (fst (PublishWithConfirmation pub letter timeout acqs subs sels)))"
    then show ?thesis
      using pwc_receipts_aux(1) by (simp add: PublishWithConfirmation_def)
  qed
  then obtain e where "r = new_receipt letter e" ..
  then show ?thesis by (simp add: new_receipt_fields)
qed

theorem receipt_references_its_letter_witness:
  "new_receipt example_letter (Some ''channel closed'')
      \<in> set (receipts (fst (Publish example_publisher example_letter False
                                [Inr 3] [Some ''channel closed''])))
   \<and> ReceiptLetterID (new_receipt example_letter (Some ''channel closed'')) = ''1''
   \<and> \<not> Success (new_receipt example_letter (Some ''channel closed''))
   \<and> FailedLetter (new_receipt example_letter (Some ''channel closed'')) = Some example_letter"
proof -
  have h: "new_receipt example_letter (Some ''channel closed'')
      \<in> set (receipts (fst (Publish example_publisher example_letter False
                                [Inr 3] [Some ''channel closed''])))"
    by (simp add: publishReceipt_def)
  have "LetterID example_letter = ''1''"
    by (simp add: example_letter_def)
  moreover have "Error (new_receipt example_letter (Some ''channel closed'')) \<noteq> None"
    by (simp add: new_receipt_def)
  ultimately show ?thesis
    using h receipt_references_its_letter [of "new_receipt example_letter (Some ''channel closed'')"
        example_publisher example_letter False "[Inr 3]" "[Some ''channel closed'']" 0 "[]"]
    by simp
qed

text \<open>
  C7. A call of \<^verbatim>\<open>PublishWithConfirmation\<close>, and of \<^verbatim>\<open>PublishWithConfirmationError\<close>,
  with timeout 0 has the run of the call with the publisher's \<open>publishTimeOutDuration\<close>,
  in every world: the same effects, timers included, and the same outcome.
\<close>

theorem zero_timeout_is_default:
  "PublishWithConfirmation pub letter 0 acqs subs sels
     = PublishWithConfirmation pub letter (publishTimeOutDuration pub) acqs subs sels
   \<and> PublishWithConfirmationError pub letter 0 acqs subs sels
     = PublishWithConfirmationError pub letter (publishTimeOutDuration pub) acqs subs sels"
  by (simp add: PublishWithConfirmation_def PublishWithConfirmationError_def)

text \<open>
  C1. When the \<^verbatim>\<open>select\<close> of \<^verbatim>\<open>PublishWithConfirmation\<close> takes the case of the elapsed
  timer, the method returns, and its run ends there with the failure receipt, whose error names
  the \<open>LetterID\<close> and says that the confirmation was not received in a timely manner,
  recommending retry/requeue, and with the return of the held channel with \<^verbatim>\<open>erred = false\<close>.
  No receipt was emitted before, and nothing follows: no further submission.
\<close>

theorem timeout_emits_one_failure_receipt:
  assumes "PublishWithConfirmation pub letter timeout acqs subs sels = (tr, out)"
      and "Recv_timeoutAfter \<in> set tr"
  shows "out = Returns ()
       \<and> (\<exists>pre ch. tr = pre @ [Recv_timeoutAfter,
              Emit_Receipt \<lparr> ReceiptLetterID = LetterID letter, Success = False,
                Error = Some (''publish confirmation for LetterID: '' @ LetterID letter
                  @ '' wasn't received in a timely manner - recommend retry/requeue''),
                FailedLetter = Some letter \<rparr>,
              ReturnChannel (Some ch) False]
            \<and> holding None pre = Some ch \<and> receipts pre = [])"
proof -
  let ?t = "if timeout = 0 then publishTimeOutDuration pub else timeout"
  from assms have tr: "tr = fst (pwc_for (ApplicationName pub) letter ?t acqs subs sels)"
    and out: "out = snd (pwc_for (ApplicationName pub) letter ?t acqs subs sels)"
    by (simp_all add: PublishWithConfirmation_def)
  from assms(2) tr pwc_timeout_aux(1) [of "ApplicationName pub" letter ?t acqs subs sels]
  show ?thesis unfolding tr out timeout_tail_def by blast
qed

theorem timeout_emits_one_failure_receipt_witness:
  "Recv_timeoutAfter \<in> set (fst (PublishWithConfirmation example_publisher example_letter 0
        [Inr 7] [None] [Default, Timeout_Elapsed]))
   \<and> snd (PublishWithConfirmation example_publisher example_letter 0
        [Inr 7] [None] [Default, Timeout_Elapsed]) = Returns ()
   \<and> (\<exists>pre ch. fst (PublishWithConfirmation example_publisher example_letter 0
        [Inr 7] [None] [Default, Timeout_Elapsed])
          = pre @ [Recv_timeoutAfter,
              Emit_Receipt \<lparr> ReceiptLetterID = LetterID example_letter, Success = False,
                Error = Some (''publish confirmation for LetterID: '' @ LetterID example_letter
                  @ '' wasn't received in a timely manner - recommend retry/requeue''),
                FailedLetter = Some example_letter \<rparr>,
              ReturnChannel (Some ch) False]
            \<and> holding None pre = Some ch \<and> receipts pre = [])"
proof -
  have h: "Recv_timeoutAfter \<in> set (fst (PublishWithConfirmation example_publisher
        example_letter 0 [Inr 7] [None] [Default, Timeout_Elapsed]))"
    by (simp add: PublishWithConfirmation_def)
  from timeout_emits_one_failure_receipt [OF prod.collapse [symmetric] h] h
  show ?thesis by simp
qed

text \<open>
  C2. In every run of \<^verbatim>\<open>PublishWithConfirmation\<close>, a received negative confirmation is
  followed at once by a new timer of the full timeout (the default one when the argument was 0)
  and by the submission of the same letter on the same channel; no receipt lies between. There
  is no bound on the number of attempts: for every \<open>n\<close>, after \<open>n\<close> negative confirmations
  the letter has been submitted \<open>n + 1\<close> times on the one channel, no receipt has been
  emitted and the method has not returned.
\<close>

theorem nack_resubmits_on_same_channel:
  "(\<forall>pre ch rest.
      fst (PublishWithConfirmation pub letter timeout acqs subs sels)
        = pre @ Recv_Confirmation ch False # rest \<longrightarrow>
      (\<exists>rest'. rest = TimeAfter (if timeout = 0 then publishTimeOutDuration pub else timeout)
                        # publish_call (ApplicationName pub) ch letter # rest'))
   \<and> (\<forall>n c. snd (PublishWithConfirmation pub letter timeout [Inr c] (replicate (Suc n) None)
                   (replicate n (Confirmation False))) = Pending
          \<and> submissions (fst (PublishWithConfirmation pub letter timeout [Inr c]
                   (replicate (Suc n) None) (replicate n (Confirmation False))))
              = replicate (Suc n) (publish_call (ApplicationName pub) c letter)
          \<and> receipts (fst (PublishWithConfirmation pub letter timeout [Inr c]
                   (replicate (Suc n) None) (replicate n (Confirmation False)))) = [])"
proof (intro conjI allI impI)
  fix pre ch rest
  let ?t = "if timeout = 0 then publishTimeOutDuration pub else timeout"
  assume "fst (PublishWithConfirmation pub letter timeout acqs subs sels)
        = pre @ Recv_Confirmation ch False # rest"
  then have "fst (pwc_for (ApplicationName pub) letter ?t acqs subs sels)
        = pre @ Recv_Confirmation ch False # rest"
    by (simp add: PublishWithConfirmation_def)
  with pwc_nack_aux(1) [of "ApplicationName pub" letter ?t acqs subs sels]
  have "nack_republishes (ApplicationName pub) letter ?t (Recv_Confirmation ch False # rest)"
    by (rule each_suffixD)
  then have "take 2 rest = [TimeAfter ?t, publish_call (ApplicationName pub) ch letter]"
    by simp
  then show "\<exists>rest'. rest = TimeAfter ?t # publish_call (ApplicationName pub) ch letter # rest'"
    by (rule take_2_eq)
next
  fix n c
  show "snd (PublishWithConfirmation pub letter timeout [Inr c] (replicate (Suc n) None)
                   (replicate n (Confirmation False))) = Pending"
    using nacks_keep_select_pending by (simp add: PublishWithConfirmation_def)
  show "submissions (fst (PublishWithConfirmation pub letter timeout [Inr c]
                   (replicate (Suc n) None) (replicate n (Confirmation False))))
              = replicate (Suc n) (publish_call (ApplicationName pub) c letter)"
    using nacks_keep_select_pending by (simp add: PublishWithConfirmation_def)
  show "receipts (fst (PublishWithConfirmation pub letter timeout [Inr c]
                   (replicate (Suc n) None) (replicate n (Confirmation False)))) = []"
    using nacks_keep_select_pending by (simp add: PublishWithConfirmation_def)
qed

theorem nack_resubmits_on_same_channel_witness:
  "fst (PublishWithConfirmation example_publisher example_letter 0 [Inr 7] [None, None]
          [Confirmation False, Confirmation True])
     = [Call_GetChannelFromPool, Got_Channel (Inr 7), FlushConfirms 7, TimeAfter 50000000,
        publish_call ''app'' 7 example_letter, Publish_Returned None]
       @ Recv_Confirmation 7 False
       # [TimeAfter 50000000, publish_call ''app'' 7 example_letter, Publish_Returned None,
          Recv_Confirmation 7 True, Emit_Receipt (new_receipt example_letter None),
          ReturnChannel (Some 7) False]
   \<and> (\<exists>rest'. [TimeAfter 50000000, publish_call ''app'' 7 example_letter, Publish_Returned None,
          Recv_Confirmation 7 True, Emit_Receipt (new_receipt example_letter None),
          ReturnChannel (Some 7) False]
        = TimeAfter (if (0::int) = 0 then publishTimeOutDuration example_publisher else 0)
            # publish_call (ApplicationName example_publisher) 7 example_letter # rest')"
proof -
  have h: "fst (PublishWithConfirmation example_publisher example_letter 0 [Inr 7] [None, None]
          [Confirmation False, Confirmation True])
     = [Call_GetChannelFromPool, Got_Channel (Inr 7), FlushConfirms 7, TimeAfter 50000000,
        publish_call ''app'' 7 example_letter, Publish_Returned None]
       @ Recv_Confirmation 7 False
       # [TimeAfter 50000000, publish_call ''app'' 7 example_letter, Publish_Returned None,
          Recv_Confirmation 7 True, Emit_Receipt (new_receipt example_letter None),
          ReturnChannel (Some 7) False]"
    by (simp add: PublishWithConfirmation_def example_publisher_def NewPublisher_def
        publishReceipt_def)
  from nack_resubmits_on_same_channel [of example_publisher example_letter 0 "[Inr 7]"
      "[None, None]" "[Confirmation False, Confirmation True]", THEN conjunct1, rule_format, OF h]
  have e: "\<exists>rest'. [TimeAfter 50000000, publish_call ''app'' 7 example_letter, Publish_Returned None,
          Recv_Confirmation 7 True, Emit_Receipt (new_receipt example_letter None),
          ReturnChannel (Some 7) False]
        = TimeAfter (if (0::int) = 0 then publishTimeOutDuration example_publisher else 0)
            # publish_call (ApplicationName example_publisher) 7 example_letter # rest'" .
  show ?thesis by (rule conjI [OF h e])
qed

text \<open>
  C3. In every run of \<^verbatim>\<open>PublishWithConfirmation\<close>, a submission that returns an error is
  followed at once by the return of its channel with \<^verbatim>\<open>erred = true\<close> and a new call of
  \<^verbatim>\<open>GetChannelFromPool\<close>; when that call hands out a channel, its confirmations are flushed,
  a timer is started and the letter is submitted on it. No receipt is emitted for the failed
  submission. There is no bound on the number of restarts: when the submissions on the channels
  \<open>c # cs\<close> the pool hands out all fail, the letter is submitted once on each of them, no
  receipt is emitted and the method has not returned.
\<close>

theorem failed_submission_restarts_on_new_channel:
  "(\<forall>pre ch ex rk m i msg e rest.
      fst (PublishWithConfirmation pub letter timeout acqs subs sels)
        = pre @ Channel_Publish ch ex rk m i msg # Publish_Returned (Some e) # rest \<longrightarrow>
      (\<exists>rest'. rest = ReturnChannel (Some ch) True # Call_GetChannelFromPool # rest'
         \<and> (\<forall>ch' rest''. rest' = Got_Channel (Inr ch') # rest'' \<longrightarrow>
               (\<exists>r. rest'' = FlushConfirms ch'
                      # TimeAfter (if timeout = 0 then publishTimeOutDuration pub else timeout)
                      # publish_call (ApplicationName pub) ch' letter # r))))
   \<and> (\<forall>c cs e.
        snd (PublishWithConfirmation pub letter timeout (map Inr (c # cs))
               (replicate (length cs) (Some e)) []) = Pending
      \<and> submissions (fst (PublishWithConfirmation pub letter timeout (map Inr (c # cs))
               (replicate (length cs) (Some e)) []))
          = map (\<lambda>ch. publish_call (ApplicationName pub) ch letter) (c # cs)
      \<and> receipts (fst (PublishWithConfirmation pub letter timeout (map Inr (c # cs))
               (replicate (length cs) (Some e)) [])) = [])"
proof (intro conjI allI impI)
  fix pre ch ex rk m i msg e rest
  let ?t = "if timeout = 0 then publishTimeOutDuration pub else timeout"
  let ?app = "ApplicationName pub"
  assume "fst (PublishWithConfirmation pub letter timeout acqs subs sels)
        = pre @ Channel_Publish ch ex rk m i msg # Publish_Returned (Some e) # rest"
  then have "fst (pwc_for ?app letter ?t acqs subs sels)
        = pre @ Channel_Publish ch ex rk m i msg # Publish_Returned (Some e) # rest"
    by (simp add: PublishWithConfirmation_def)
  with pwc_restart_aux(1) [of ?app letter ?t acqs subs sels]
  have "failed_submission_restarts ?app letter ?t
          (Channel_Publish ch ex rk m i msg # Publish_Returned (Some e) # rest)"
    by (rule each_suffixD)
  then have t2: "take 2 rest = [ReturnChannel (Some ch) True, Call_GetChannelFromPool]"
    and re: "reacquired_publishes ?app letter ?t (drop 2 rest)"
    by simp_all
  from t2 have "\<exists>r. rest = ReturnChannel (Some ch) True # Call_GetChannelFromPool # r"
    by (rule take_2_eq)
  then obtain rest' where rest: "rest = ReturnChannel (Some ch) True # Call_GetChannelFromPool # rest'" ..
  have "\<forall>ch' rest''. rest' = Got_Channel (Inr ch') # rest'' \<longrightarrow>
               (\<exists>r. rest'' = FlushConfirms ch' # TimeAfter ?t # publish_call ?app ch' letter # r)"
  proof (intro allI impI)
    fix ch' rest'' assume "rest' = Got_Channel (Inr ch') # rest''"
    with re rest have "take 3 rest'' = [FlushConfirms ch', TimeAfter ?t, publish_call ?app ch' letter]"
      by simp
    then show "\<exists>r. rest'' = FlushConfirms ch' # TimeAfter ?t # publish_call ?app ch' letter # r"
      by (rule take_3_eq)
  qed
  with rest show "\<exists>rest'. rest = ReturnChannel (Some ch) True # Call_GetChannelFromPool # rest'
         \<and> (\<forall>ch' rest''. rest' = Got_Channel (Inr ch') # rest'' \<longrightarrow>
               (\<exists>r. rest'' = FlushConfirms ch' # TimeAfter ?t # publish_call ?app ch' letter # r))"
    by (intro exI [of _ rest'] conjI)
next
  fix c cs e
  show "snd (PublishWithConfirmation pub letter timeout (map Inr (c # cs))
               (replicate (length cs) (Some e)) []) = Pending"
    using failures_keep_for_pending [of _ _ _ c cs e] by (simp add: PublishWithConfirmation_def)
  show "submissions (fst (PublishWithConfirmation pub letter timeout (map Inr (c # cs))
               (replicate (length cs) (Some e)) []))
          = map (\<lambda>ch. publish_call (ApplicationName pub) ch letter) (c # cs)"
    using failures_keep_for_pending [of _ _ _ c cs e] by (simp add: PublishWithConfirmation_def)
  show "receipts (fst (PublishWithConfirmation pub letter timeout (map Inr (c # cs))
               (replicate (length cs) (Some e)) [])) = []"
    using failures_keep_for_pending [of _ _ _ c cs e] by (simp add: PublishWithConfirmation_def)
qed

theorem failed_submission_restarts_on_new_channel_witness:
  "fst (PublishWithConfirmation example_publisher example_letter 0 [Inr 7, Inr 8]
          [Some ''channel closed'', None] [Confirmation True])
     = [Call_GetChannelFromPool, Got_Channel (Inr 7), FlushConfirms 7, TimeAfter 50000000]
       @ publish_call ''app'' 7 example_letter # Publish_Returned (Some ''channel closed'')
       # [ReturnChannel (Some 7) True, Call_GetChannelFromPool, Got_Channel (Inr 8),
          FlushConfirms 8, TimeAfter 50000000, publish_call ''app'' 8 example_letter,
          Publish_Returned None, Recv_Confirmation 8 True,
          Emit_Receipt (new_receipt example_letter None), ReturnChannel (Some 8) False]
   \<and> (\<exists>r. [Got_Channel (Inr 8),
          FlushConfirms 8, TimeAfter 50000000, publish_call ''app'' 8 example_letter,
          Publish_Returned None, Recv_Confirmation 8 True,
          Emit_Receipt (new_receipt example_letter None), ReturnChannel (Some 8) False]
        = Got_Channel (Inr 8) # FlushConfirms 8
            # TimeAfter (if (0::int) = 0 then publishTimeOutDuration example_publisher else 0)
            # publish_call (ApplicationName example_publisher) 8 example_letter # r)"
proof -
  let ?rest = "[ReturnChannel (Some 7) True, Call_GetChannelFromPool, Got_Channel (Inr 8),
          FlushConfirms 8, TimeAfter 50000000, publish_call ''app'' 8 example_letter,
          Publish_Returned None, Recv_Confirmation 8 True,
          Emit_Receipt (new_receipt example_letter None), ReturnChannel (Some 8) False]"
  have h: "fst (PublishWithConfirmation example_publisher example_letter 0 [Inr 7, Inr 8]
          [Some ''channel closed'', None] [Confirmation True])
     = [Call_GetChannelFromPool, Got_Channel (Inr 7), FlushConfirms 7, TimeAfter 50000000]
       @ publish_call ''app'' 7 example_letter # Publish_Returned (Some ''channel closed'')
       # ?rest"
    by (simp add: PublishWithConfirmation_def example_publisher_def NewPublisher_def
        publishReceipt_def)
  from failed_submission_restarts_on_new_channel [of example_publisher example_letter 0
      "[Inr 7, Inr 8]" "[Some ''channel closed'', None]" "[Confirmation True]",
      THEN conjunct1, rule_format, OF h [unfolded publish_call_def]]
  obtain rest' where r1: "?rest = ReturnChannel (Some 7) True # Call_GetChannelFromPool # rest'"
    and r2: "\<forall>ch' rest''. rest' = Got_Channel (Inr ch') # rest'' \<longrightarrow>
       (\<exists>r. rest'' = FlushConfirms ch'
           # TimeAfter (if (0::int) = 0 then publishTimeOutDuration example_publisher else 0)
           # publish_call (ApplicationName example_publisher) ch' example_letter # r)"
    by (auto simp: publish_call_def)
  from r1 have r3: "rest' = Got_Channel (Inr 8) # [FlushConfirms 8, TimeAfter 50000000,
          publish_call ''app'' 8 example_letter,
          Publish_Returned None, Recv_Confirmation 8 True,
          Emit_Receipt (new_receipt example_letter None), ReturnChannel (Some 8) False]"
    by simp
  from r2 [rule_format, OF r3] have "\<exists>r. [FlushConfirms 8, TimeAfter 50000000,
          publish_call ''app'' 8 example_letter,
          Publish_Returned None, Recv_Confirmation 8 True,
          Emit_Receipt (new_receipt example_letter None), ReturnChannel (Some 8) False]
       = FlushConfirms 8
           # TimeAfter (if (0::int) = 0 then publishTimeOutDuration example_publisher else 0)
           # publish_call (ApplicationName example_publisher) 8 example_letter # r" .
  then have "\<exists>r. [Got_Channel (Inr 8), FlushConfirms 8, TimeAfter 50000000,
          publish_call ''app'' 8 example_letter,
          Publish_Returned None, Recv_Confirmation 8 True,
          Emit_Receipt (new_receipt example_letter None), ReturnChannel (Some 8) False]
        = Got_Channel (Inr 8) # FlushConfirms 8
            # TimeAfter (if (0::int) = 0 then publishTimeOutDuration example_publisher else 0)
            # publish_call (ApplicationName example_publisher) 8 example_letter # r"
    by simp
  with h show ?thesis by (rule conjI)
qed

text \<open>
  C8 (as amended). A call of \<^verbatim>\<open>Publish\<close> that returns has called \<^verbatim>\<open>GetChannelFromPool\<close>
  once. When it got a channel, it submitted the letter exactly once, on that channel, returned
  the channel flagged erred exactly when the submission failed, and emitted exactly one
  receipt, for the outcome of the submission, when \<open>skipReceipt\<close> is false, and none when it
  is true. When the pool returned an error, it submitted nothing and emitted no receipt.
\<close>

theorem Publish_submits_at_most_once:
  assumes "Publish pub letter skipReceipt acqs subs = (tr, Returns ())"
  shows "count_list tr Call_GetChannelFromPool = 1
       \<and> ((\<exists>ch err. Got_Channel (Inr ch) \<in> set tr
              \<and> submissions tr = [publish_call (ApplicationName pub) ch letter]
              \<and> Publish_Returned err \<in> set tr
              \<and> returned_channels tr = [(Some ch, err \<noteq> None)]
              \<and> receipts tr = (if skipReceipt then [] else [new_receipt letter err]))
          \<or> (\<exists>e. Got_Channel (Inl e) \<in> set tr
              \<and> submissions tr = []
              \<and> returned_channels tr = [(None, True)]
              \<and> receipts tr = []))"
  using assms
proof (induction pub letter skipReceipt acqs subs rule: Publish.induct)
  case (1 pub letter skipReceipt subs)
  then show ?case by simp
next
  case (2 pub letter skipReceipt err acqs subs)
  then show ?case by auto
next
  case (3 pub letter skipReceipt chanHost acqs)
  then show ?case by simp
next
  case (4 pub letter skipReceipt chanHost acqs err subs)
  then have tr: "tr = [Call_GetChannelFromPool, Got_Channel (Inr chanHost),
       publish_call (ApplicationName pub) chanHost letter, Publish_Returned err]
      @ (if \<not> skipReceipt then [publishReceipt letter err] else [])
      @ [ReturnChannel (Some chanHost) (err \<noteq> None)]"
    by simp
  have "count_list tr Call_GetChannelFromPool = 1"
    unfolding tr by (simp add: publish_call_def publishReceipt_def)
  moreover have "Got_Channel (Inr chanHost) \<in> set tr
      \<and> submissions tr = [publish_call (ApplicationName pub) chanHost letter]
      \<and> Publish_Returned err \<in> set tr
      \<and> returned_channels tr = [(Some chanHost, err \<noteq> None)]
      \<and> receipts tr = (if skipReceipt then [] else [new_receipt letter err])"
    unfolding tr by (simp add: publishReceipt_def)
  ultimately show ?case by blast
qed

theorem Publish_submits_at_most_once_witness:
  "Publish example_publisher example_letter False [Inr 3] [Some ''channel closed'']
     = (fst (Publish example_publisher example_letter False [Inr 3] [Some ''channel closed'']),
        Returns ())
   \<and> submissions (fst (Publish example_publisher example_letter False [Inr 3]
        [Some ''channel closed''])) = [publish_call ''app'' 3 example_letter]
   \<and> returned_channels (fst (Publish example_publisher example_letter False [Inr 3]
        [Some ''channel closed''])) = [(Some 3, True)]
   \<and> receipts (fst (Publish example_publisher example_letter False [Inr 3]
        [Some ''channel closed''])) = [new_receipt example_letter (Some ''channel closed'')]"
proof -
  have h: "Publish example_publisher example_letter False [Inr 3] [Some ''channel closed'']
     = (fst (Publish example_publisher example_letter False [Inr 3] [Some ''channel closed'']),
        Returns ())"
    by simp
  from Publish_submits_at_most_once [OF h] h
  show ?thesis
    by (simp add: example_publisher_def NewPublisher_def publishReceipt_def)
qed

text \<open>
  The claim as stated, that \<^verbatim>\<open>Publish\<close> publishes the letter once and emits exactly one receipt
  when \<open>skipReceipt\<close> is false, fails when the pool hands out no channel.
\<close>

theorem Publish_without_channel_counterexample:
  "snd (Publish example_publisher example_letter False [Inl ''pool is shut down''] [])
     = Returns ()
   \<and> length (submissions (fst (Publish example_publisher example_letter False
        [Inl ''pool is shut down''] []))) \<noteq> 1
   \<and> length (receipts (fst (Publish example_publisher example_letter False
        [Inl ''pool is shut down''] []))) \<noteq> 1"
  by simp

text \<open>
  C10. When \<^verbatim>\<open>GetChannelFromPool\<close> returns an error, \<^verbatim>\<open>Publish\<close> returns after calling
  \<^verbatim>\<open>ReturnChannel\<close> with the nil channel host and \<^verbatim>\<open>erred = true\<close>: it submits nothing and
  emits no receipt, whatever \<open>skipReceipt\<close> is.
\<close>

theorem Publish_drops_letter_without_channel:
  "snd (Publish pub letter skipReceipt (Inl err # acqs) subs) = Returns ()
   \<and> fst (Publish pub letter skipReceipt (Inl err # acqs) subs)
       = [Call_GetChannelFromPool, Got_Channel (Inl err), ReturnChannel None True]
   \<and> submissions (fst (Publish pub letter skipReceipt (Inl err # acqs) subs)) = []
   \<and> receipts (fst (Publish pub letter skipReceipt (Inl err # acqs) subs)) = []
   \<and> returned_channels (fst (Publish pub letter skipReceipt (Inl err # acqs) subs))
       = [(None, True)]"
  by simp






text \<open>
  C9. In every state the publisher reaches, the \<^verbatim>\<open>wg.Wait()\<close> of \<^verbatim>\<open>Shutdown\<close> cannot return
  while a goroutine the publisher started is alive; and when it returns, every drain loop has
  exited, no spawned publish attempt is publishing, releasing or finishing, and no receipt
  goroutine is pending.
\<close>

theorem shutdown_joins_all_tasks:
  assumes "run_system (NewSystem appName maxChannels timeOut) as = Some s"
  shows "(0 < live_tasks s \<longrightarrow> step s Shutdown_Returns = None)
       \<and> (\<forall>s'. step s Shutdown_Returns = Some s' \<longrightarrow>
             live_tasks s' = 0
           \<and> list_all (\<lambda>d. drain_pc d = Exited \<and> publishing d = [] \<and> releasing d = 0
                            \<and> finishing d = 0) (drains s')
           \<and> receipt_tasks s' = [])"
proof -
  from system_inv_init assms have inv: "system_inv maxChannels s"
    by (rule run_system_inv)
  then have wg: "wg s = int (live_tasks s)"
    by (simp add: system_inv_def)
  have 1: "0 < live_tasks s \<longrightarrow> step s Shutdown_Returns = None"
    using wg by simp
  have 2: "\<forall>s'. step s Shutdown_Returns = Some s' \<longrightarrow>
             live_tasks s' = 0
           \<and> list_all (\<lambda>d. drain_pc d = Exited \<and> publishing d = [] \<and> releasing d = 0
                            \<and> finishing d = 0) (drains s')
           \<and> receipt_tasks s' = []"
  proof (intro allI impI)
    fix s' assume "step s Shutdown_Returns = Some s'"
    then have "wg s = 0" and s': "s' = s\<lparr> shutdown_call := Has_Returned \<rparr>"
      by (simp_all split: if_splits)
    with wg have "live_tasks s = 0"
      by simp
    moreover from s' have "live_tasks s' = live_tasks s"
      by (simp add: live_tasks_def)
    ultimately have "live_tasks s' = 0"
      by simp
    with live_tasks_zero [of s']
    show "live_tasks s' = 0
           \<and> list_all (\<lambda>d. drain_pc d = Exited \<and> publishing d = [] \<and> releasing d = 0
                            \<and> finishing d = 0) (drains s')
           \<and> receipt_tasks s' = []"
      by simp
  qed
  from 1 2 show ?thesis by (rule conjI)
qed

theorem shutdown_joins_all_tasks_witness:
  "run_system (NewSystem ''app'' 2 50000000) [StartAutoPublishing_Checks, StartAutoPublishing_Starts, Call_Shutdown False]
     = Some example_waiting
   \<and> 0 < live_tasks example_waiting
   \<and> step example_waiting Shutdown_Returns = None
   \<and> run_system (NewSystem ''app'' 2 50000000) example_schedule = Some example_joined
   \<and> step example_joined Shutdown_Returns
       = Some (example_joined\<lparr> shutdown_call := Has_Returned \<rparr>)
   \<and> live_tasks (example_joined\<lparr> shutdown_call := Has_Returned \<rparr>) = 0
   \<and> receipt_tasks (example_joined\<lparr> shutdown_call := Has_Returned \<rparr>) = []"
proof -
  have 1: "0 < live_tasks example_waiting"
    by (simp add: example_waiting_def Publisher.extend_def live_tasks_def drain_tasks_def)
  from shutdown_joins_all_tasks [OF example_waiting_run] 1
  have 2: "step example_waiting Shutdown_Returns = None"
    by blast
  have 3: "step example_joined Shutdown_Returns
       = Some (example_joined\<lparr> shutdown_call := Has_Returned \<rparr>)"
    by (simp add: example_joined_def Publisher.extend_def)
  from shutdown_joins_all_tasks [OF example_schedule_run, THEN conjunct2, rule_format, OF 3]
  have 4: "live_tasks (example_joined\<lparr> shutdown_call := Has_Returned \<rparr>) = 0"
    and 5: "receipt_tasks (example_joined\<lparr> shutdown_call := Has_Returned \<rparr>) = []"
    by simp_all
  from example_waiting_run 1 2 example_schedule_run 3 4 5 show ?thesis by (intro conjI)
qed

end
